theory Spec2Isabelle
  imports Main "HOL-Library.Sublist"
begin

section \<open>Preliminaries: Python values\<close>

text \<open>
  A Python \<open>str\<close> is a sequence of Unicode code points; slicing and \<open>len\<close> count code
  points, so a string is modelled as a list of code points.  ASCII literals are written
  with \<open>asc\<close>; the Chinese literals of the source are given by their code points.
\<close>

type_synonym pystr = "nat list"

definition asc :: "string \<Rightarrow> pystr" where
  "asc s = map of_char s"

text \<open>The exceptions the modelled code can meet.\<close>

datatype exn =
    IndexError
  | KeyError pystr
  | TypeError
  | AttributeError
  | ImportError
  | OSError pystr
  | Timeout
  | ConnectionError pystr
  | OtherException pystr

text \<open>\<open>xs[i]\<close> for a non-negative index: IndexError out of range.\<close>

definition py_index :: "'a list \<Rightarrow> nat \<Rightarrow> exn + 'a" where
  "py_index xs i = (if i < length xs then Inr (xs ! i) else Inl IndexError)"

text \<open>
  JSON-like values: what \<open>response.json()\<close> returns, and what the response dictionaries
  of the OCR client are built from.  A dictionary is an association list (the first
  binding of a key is the one looked up).  A float is a dyadic \<open>m * 2^e\<close>, an infinity
  or a NaN; only whether it is zero matters below.
\<close>

datatype pyfloat = Finite int int | Inf bool | NaN

datatype json =
    JNull
  | JBool bool
  | JInt int
  | JFloat pyfloat
  | JStr pystr
  | JArr "json list"
  | JObj "(pystr \<times> json) list"

text \<open>
  What the model takes from the Python runtime as given: \<open>repr\<close> of a value, the message
  \<open>str(e)\<close> of a built-in exception, and \<open>str.lower\<close>.
\<close>

record pyenv =
  py_repr :: "json \<Rightarrow> pystr"
  builtin_msg :: "exn \<Rightarrow> pystr"
  str_lower :: "pystr \<Rightarrow> pystr"

definition str_exn :: "pyenv \<Rightarrow> exn \<Rightarrow> pystr" where
  "str_exn env e =
     (case e of
        OSError m \<Rightarrow> m
      | ConnectionError m \<Rightarrow> m
      | OtherException m \<Rightarrow> m
      | _ \<Rightarrow> builtin_msg env e)"

text \<open>\<open>str(x)\<close>: a string is itself, anything else prints as its \<open>repr\<close>.\<close>

definition py_str :: "pyenv \<Rightarrow> json \<Rightarrow> pystr" where
  "py_str env v = (case v of JStr s \<Rightarrow> s | _ \<Rightarrow> py_repr env v)"

definition float_is_zero :: "pyfloat \<Rightarrow> bool" where
  "float_is_zero f = (case f of Finite m e \<Rightarrow> m = 0 | _ \<Rightarrow> False)"

text \<open>Truthiness (\<open>if x:\<close>).\<close>

definition truthy :: "json \<Rightarrow> bool" where
  "truthy v =
     (case v of
        JNull \<Rightarrow> False
      | JBool b \<Rightarrow> b
      | JInt n \<Rightarrow> n \<noteq> 0
      | JFloat f \<Rightarrow> \<not> float_is_zero f
      | JStr s \<Rightarrow> s \<noteq> []
      | JArr xs \<Rightarrow> xs \<noteq> []
      | JObj kvs \<Rightarrow> kvs \<noteq> [])"

text \<open>\<open>needle in haystack\<close> for strings: a contiguous occurrence.\<close>

fun str_contains :: "pystr \<Rightarrow> pystr \<Rightarrow> bool" where
  "str_contains needle [] = (needle = [])"
| "str_contains needle (c # cs) = (prefix needle (c # cs) \<or> str_contains needle cs)"

text \<open>
  \<open>key in x\<close> for a string key: key membership in a dict, element membership in a list,
  substring in a string, TypeError for the values that are not iterable.
\<close>

definition py_in :: "pystr \<Rightarrow> json \<Rightarrow> exn + bool" where
  "py_in key v =
     (case v of
        JObj kvs \<Rightarrow> Inr (map_of kvs key \<noteq> None)
      | JArr xs \<Rightarrow> Inr (List.member xs (JStr key))
      | JStr s \<Rightarrow> Inr (str_contains key s)
      | _ \<Rightarrow> Inl TypeError)"

text \<open>\<open>x[key]\<close> for a string key: only a dict can be indexed by a string.\<close>

definition py_getitem :: "json \<Rightarrow> pystr \<Rightarrow> exn + json" where
  "py_getitem v key =
     (case v of
        JObj kvs \<Rightarrow> (case map_of kvs key of None \<Rightarrow> Inl (KeyError key) | Some x \<Rightarrow> Inr x)
      | _ \<Rightarrow> Inl TypeError)"

text \<open>\<open>x.get(key, default)\<close>: only a dict has \<open>get\<close>.\<close>

definition py_get :: "json \<Rightarrow> pystr \<Rightarrow> json \<Rightarrow> exn + json" where
  "py_get v key dflt =
     (case v of
        JObj kvs \<Rightarrow> Inr (case map_of kvs key of None \<Rightarrow> dflt | Some x \<Rightarrow> x)
      | _ \<Rightarrow> Inl AttributeError)"

text \<open>
  \<open>for x in v\<close>: the elements of a list, the characters of a string, the keys of a
  dict (each key once); TypeError otherwise.
\<close>

definition py_iter :: "json \<Rightarrow> exn + json list" where
  "py_iter v =
     (case v of
        JArr xs \<Rightarrow> Inr xs
      | JStr s \<Rightarrow> Inr (map (\<lambda>c. JStr [c]) s)
      | JObj kvs \<Rightarrow> Inr (map JStr (remdups (map fst kvs)))
      | _ \<Rightarrow> Inl TypeError)"

definition is_str :: "json \<Rightarrow> bool" where
  "is_str v = (case v of JStr _ \<Rightarrow> True | _ \<Rightarrow> False)"

definition is_list :: "json \<Rightarrow> bool" where
  "is_list v = (case v of JArr _ \<Rightarrow> True | _ \<Rightarrow> False)"

definition is_dict :: "json \<Rightarrow> bool" where
  "is_dict v = (case v of JObj _ \<Rightarrow> True | _ \<Rightarrow> False)"

text \<open>
  \<open>str.strip()\<close> removes the characters for which \<open>str.isspace\<close> holds from both ends.
\<close>

definition is_space :: "nat \<Rightarrow> bool" where
  "is_space c =
     ((9 \<le> c \<and> c \<le> 13) \<or> (28 \<le> c \<and> c \<le> 32) \<or> c = 133 \<or> c = 160 \<or> c = 5760
      \<or> (8192 \<le> c \<and> c \<le> 8202) \<or> c = 8232 \<or> c = 8233 \<or> c = 8239 \<or> c = 8287
      \<or> c = 12288)"

definition strip :: "pystr \<Rightarrow> pystr" where
  "strip s = rev (dropWhile is_space (rev (dropWhile is_space s)))"

text \<open>\<open>sep.join(xs)\<close> for strings, and for values: TypeError on a non-string item.\<close>

fun join :: "pystr \<Rightarrow> pystr list \<Rightarrow> pystr" where
  "join sep [] = []"
| "join sep [x] = x"
| "join sep (x # y # ys) = x @ sep @ join sep (y # ys)"

fun strs_of :: "json list \<Rightarrow> exn + pystr list" where
  "strs_of [] = Inr []"
| "strs_of (JStr s # vs) = (case strs_of vs of Inl e \<Rightarrow> Inl e | Inr ss \<Rightarrow> Inr (s # ss))"
| "strs_of (_ # vs) = Inl TypeError"

definition py_join :: "pystr \<Rightarrow> json list \<Rightarrow> exn + pystr" where
  "py_join sep vs = (case strs_of vs of Inl e \<Rightarrow> Inl e | Inr ss \<Rightarrow> Inr (join sep ss))"

text \<open>\<open>s.split(sep)\<close> for a one-character separator.\<close>

fun split_on :: "nat \<Rightarrow> pystr \<Rightarrow> pystr list" where
  "split_on sep [] = [[]]"
| "split_on sep (c # cs) =
     (case split_on sep cs of
        [] \<Rightarrow> [[c]]
      | p # ps \<Rightarrow> if c = sep then [] # p # ps else (c # p) # ps)"

subsection \<open>Paths (os.path, in its POSIX form)\<close>

text \<open>\<open>s.rfind(c)\<close>: the index of the last occurrence of a character, \<open>-1\<close> if none.\<close>

definition rfind :: "nat \<Rightarrow> pystr \<Rightarrow> int" where
  "rfind c p =
     (if c \<in> set p then int (length p) - 1 - int (length (takeWhile (\<lambda>x. x \<noteq> c) (rev p)))
      else - 1)"

text \<open>\<open>os.path.basename\<close>: what follows the last slash.\<close>

definition basename :: "pystr \<Rightarrow> pystr" where
  "basename p = drop (nat (rfind 47 p + 1)) p"

text \<open>
  \<open>os.path.splitext\<close>: split at the last dot, if that dot comes after the last slash
  and is preceded, in the file name, by a character that is not a dot.
\<close>

definition splitext :: "pystr \<Rightarrow> pystr \<times> pystr" where
  "splitext p =
     (let sepIndex = rfind 47 p; dotIndex = rfind 46 p
      in if dotIndex > sepIndex
            \<and> list_ex (\<lambda>i. p ! i \<noteq> 46) [nat (sepIndex + 1) ..< nat dotIndex]
         then (take (nat dotIndex) p, drop (nat dotIndex) p)
         else (p, []))"

text \<open>\<open>os.path.join(a, b)\<close>.\<close>

definition path_join :: "pystr \<Rightarrow> pystr \<Rightarrow> pystr" where
  "path_join a b =
     (if b \<noteq> [] \<and> hd b = 47 then b
      else if a = [] \<or> last a = 47 then a @ b
      else a @ [47] @ b)"

subsection \<open>Actions, traces and the cancellation token\<close>

text \<open>
  Everything the modelled code does to the outside world is an action, appended to a
  trace; the position of an action in the trace is the time at which it happens.
  Sleeps are counted in tenths of a second.
\<close>

datatype action =
    ReadStop bool
  | StatusUpdate int pystr
  | ProgressUpdate int int int
  | ResultUpdate int pystr
  | Finished
  | Stopped
  | MakeDirs pystr
  | Submit nat pystr
  | PollDone nat bool
  | Sleep nat
  | Shutdown
  | PrintFatal
  | ReadFile pystr
  | HttpPost nat int
  | WriteFile pystr

type_synonym trace = "action list"

definition log :: "action \<Rightarrow> trace \<Rightarrow> trace" where
  "log a tr = tr @ [a]"

text \<open>
  The stop event is set by another thread.  \<open>Some n\<close> says that it is set from time
  \<open>n\<close> on (so \<open>Some 0\<close> is an event set from the start), \<open>None\<close> that it is never set.
  Reading it is an action, and the value read is recorded.
\<close>

type_synonym token = "nat option"

definition tok_set_at :: "token \<Rightarrow> nat \<Rightarrow> bool" where
  "tok_set_at tok t = (case tok of None \<Rightarrow> False | Some n \<Rightarrow> n \<le> t)"

definition is_set :: "token \<Rightarrow> trace \<Rightarrow> bool \<times> trace" where
  "is_set tok tr = (let b = tok_set_at tok (length tr) in (b, log (ReadStop b) tr))"

text \<open>Sequencing of computations that may raise.\<close>

definition ebind :: "exn + 'a \<Rightarrow> ('a \<Rightarrow> exn + 'b) \<Rightarrow> exn + 'b" where
  "ebind m f = (case m of Inl e \<Rightarrow> Inl e | Inr x \<Rightarrow> f x)"

fun efold :: "('a \<Rightarrow> 'b \<Rightarrow> exn + 'b) \<Rightarrow> 'a list \<Rightarrow> 'b \<Rightarrow> exn + 'b" where
  "efold f [] a = Inr a"
| "efold f (x # xs) a = (case f x a of Inl e \<Rightarrow> Inl e | Inr a' \<Rightarrow> efold f xs a')"

section \<open>The OCR client (services/ocr_engine.py)\<close>

subsection \<open>Configuration (app_config.py)\<close>

record model_config =
  url :: "pystr option"
  auth_token :: "pystr option"

record config =
  current_model :: "pystr option"
  models :: "(pystr \<times> model_config) list"

text \<open>
  \<open>config.get_model_config(name)\<close> is \<open>data.get("models", {}).get(name, {})\<close>: an
  unknown model has neither URL nor token.
\<close>

definition get_model_config :: "config \<Rightarrow> pystr option \<Rightarrow> model_config" where
  "get_model_config cfg name =
     (case name of
        None \<Rightarrow> \<lparr> url = None, auth_token = None \<rparr>
      | Some n \<Rightarrow> (case map_of (models cfg) n of
                    None \<Rightarrow> \<lparr> url = None, auth_token = None \<rparr>
                  | Some mc \<Rightarrow> mc))"

text \<open>\<open>not s\<close> for an optional string: \<open>None\<close> and the empty string are falsy.\<close>

definition falsy_str :: "pystr option \<Rightarrow> bool" where
  "falsy_str s = (case s of None \<Rightarrow> True | Some x \<Rightarrow> x = [])"

subsection \<open>Responses\<close>

text \<open>
  The three dictionaries the client builds: the error response
  \<open>{"error": ..., "raw_response": ...}\<close> (the second key is optional), the empty result of
  \<open>_parse_result\<close> (with \<open>debug_info\<close> and \<open>raw_response\<close>) and its full result (lines of
  \<open>words_result\<close>, \<open>markdown\<close>, \<open>tables_html\<close>, \<open>layout_data\<close>, \<open>raw_result\<close>).
\<close>

datatype response =
    ErrorResp pystr "pystr option"
  | EmptyResp pystr pystr
  | ResultResp "json list" pystr "json list" "json list" json

definition to_dict :: "response \<Rightarrow> (pystr \<times> json) list" where
  "to_dict r =
     (case r of
        ErrorResp msg raw \<Rightarrow>
          (asc ''error'', JStr msg)
            # (case raw of None \<Rightarrow> [] | Some t \<Rightarrow> [(asc ''raw_response'', JStr t)])
      | EmptyResp dbg raw \<Rightarrow>
          [(asc ''words_result'', JArr []), (asc ''markdown'', JStr []),
           (asc ''tables_html'', JArr []), (asc ''layout_data'', JArr []),
           (asc ''debug_info'', JStr dbg), (asc ''raw_response'', JStr raw)]
      | ResultResp ls md tabs lay res \<Rightarrow>
          [(asc ''words_result'', JArr (map (\<lambda>l. JObj [(asc ''words'', l)]) ls)),
           (asc ''markdown'', JStr md), (asc ''tables_html'', JArr tabs),
           (asc ''layout_data'', JArr lay), (asc ''raw_result'', res)])"

definition has_key :: "pystr \<Rightarrow> (pystr \<times> json) list \<Rightarrow> bool" where
  "has_key k d = (map_of d k \<noteq> None)"

definition error_shaped :: "response \<Rightarrow> bool" where
  "error_shaped r = has_key (asc ''error'') (to_dict r)"

definition result_shaped :: "response \<Rightarrow> bool" where
  "result_shaped r =
     (\<not> has_key (asc ''error'') (to_dict r) \<and> has_key (asc ''words_result'') (to_dict r)
      \<and> has_key (asc ''markdown'') (to_dict r) \<and> has_key (asc ''tables_html'') (to_dict r)
      \<and> has_key (asc ''layout_data'') (to_dict r))"

subsection \<open>\<open>_parse_result\<close>\<close>

record acc =
  all_lines :: "json list"
  markdown_text :: pystr
  tables_html :: "json list"
  layout_data :: "json list"

definition add_lines :: "json list \<Rightarrow> acc \<Rightarrow> acc" where
  "add_lines ls a = a\<lparr>all_lines := all_lines a @ ls\<rparr>"

text \<open>\<open>key in v and isinstance(v[key], T)\<close>.\<close>

definition has_typed :: "pystr \<Rightarrow> json \<Rightarrow> (json \<Rightarrow> bool) \<Rightarrow> exn + bool" where
  "has_typed key v isT =
     ebind (py_in key v) (\<lambda>b.
       if b then ebind (py_getitem v key) (\<lambda>x. Inr (isT x)) else Inr False)"

text \<open>\<open>all_lines.extend([t for t in v[key] if isinstance(t, str)])\<close>.\<close>

definition extend_rec_texts :: "json \<Rightarrow> pystr \<Rightarrow> acc \<Rightarrow> exn + acc" where
  "extend_rec_texts v key a =
     ebind (py_getitem v key) (\<lambda>rt.
       ebind (py_iter rt) (\<lambda>ts. Inr (add_lines (filter is_str ts) a)))"

text \<open>\<open>isinstance(text, str) and text.strip()\<close>.\<close>

definition nonblank_str :: "json \<Rightarrow> bool" where
  "nonblank_str t = (case t of JStr s \<Rightarrow> strip s \<noteq> [] | _ \<Rightarrow> False)"

text \<open>The four parts of the loop over \<open>layoutParsingResults\<close>.\<close>

definition item_markdown :: "json \<Rightarrow> acc \<Rightarrow> exn + acc" where
  "item_markdown item a =
     ebind (has_typed (asc ''markdown'') item is_dict) (\<lambda>b.
       if \<not> b then Inr a
       else ebind (py_getitem item (asc ''markdown'')) (\<lambda>md.
            ebind (py_get md (asc ''text'') (JStr [])) (\<lambda>md_text.
              if truthy md_text
              then (case md_text of
                      JStr t \<Rightarrow> Inr (a\<lparr>markdown_text := markdown_text a @ t @ [10, 10]\<rparr>)
                    | _ \<Rightarrow> Inl TypeError)
              else Inr a)))"

definition table_step :: "json \<Rightarrow> acc \<Rightarrow> exn + acc" where
  "table_step table a =
     ebind (py_in (asc ''pred_html'') table) (\<lambda>b.
       if b then ebind (py_getitem table (asc ''pred_html'')) (\<lambda>h.
                   Inr (a\<lparr>tables_html := tables_html a @ [h]\<rparr>))
       else Inr a)"

definition item_tables :: "json \<Rightarrow> acc \<Rightarrow> exn + acc" where
  "item_tables item a =
     ebind (has_typed (asc ''table_res_list'') item is_list) (\<lambda>b.
       if \<not> b then Inr a
       else ebind (py_getitem item (asc ''table_res_list'')) (\<lambda>tl.
            ebind (py_iter tl) (\<lambda>tables. efold table_step tables a)))"

definition item_pruned :: "json \<Rightarrow> acc \<Rightarrow> exn + acc" where
  "item_pruned item a =
     ebind (py_in (asc ''prunedResult'') item) (\<lambda>b.
       if \<not> b then Inr a
       else ebind (py_getitem item (asc ''prunedResult'')) (\<lambda>pr.
            if is_str pr then Inr (add_lines [pr] a)
            else if is_dict pr then
              ebind (py_in (asc ''text'') pr) (\<lambda>bt.
              ebind (if bt then ebind (py_getitem pr (asc ''text'')) (\<lambda>t. Inr (add_lines [t] a))
                     else Inr a) (\<lambda>a1.
              ebind (py_in (asc ''rec_texts'') pr) (\<lambda>br.
                if br then extend_rec_texts pr (asc ''rec_texts'') a1 else Inr a1)))
            else Inr a))"

definition block_step :: "json \<Rightarrow> acc \<Rightarrow> exn + acc" where
  "block_step block a =
     ebind (py_get block (asc ''block_content'') (JStr [])) (\<lambda>block_content.
     ebind (py_get block (asc ''block_label'') (JStr (asc ''text''))) (\<lambda>block_label.
       if truthy block_content
       then ebind (py_get block (asc ''block_bbox'') JNull) (\<lambda>bbox.
            ebind (py_get block (asc ''block_order'') JNull) (\<lambda>ord.
              let a1 = a\<lparr>layout_data := layout_data a @
                          [JObj [(asc ''label'', block_label), (asc ''content'', block_content),
                                 (asc ''bbox'', bbox), (asc ''order'', ord)]]\<rparr>
              in Inr (if block_label \<noteq> JStr (asc ''table'')
                      then add_lines [block_content] a1 else a1)))
       else Inr a))"

definition item_blocks :: "json \<Rightarrow> acc \<Rightarrow> exn + acc" where
  "item_blocks item a =
     ebind (py_in (asc ''parsing_res_list'') item) (\<lambda>b.
       if \<not> b then Inr a
       else ebind (py_getitem item (asc ''parsing_res_list'')) (\<lambda>pl.
            ebind (py_iter pl) (\<lambda>blocks. efold block_step blocks a)))"

definition layout_item :: "json \<Rightarrow> acc \<Rightarrow> exn + acc" where
  "layout_item item a =
     ebind (item_markdown item a) (\<lambda>a1.
     ebind (item_tables item a1) (\<lambda>a2.
     ebind (item_pruned item a2) (\<lambda>a3. item_blocks item a3)))"

text \<open>One round of the loop over \<open>ocrResults\<close>.\<close>

definition ocr_item :: "json \<Rightarrow> acc \<Rightarrow> exn + acc" where
  "ocr_item oi a =
     ebind (py_in (asc ''prunedResult'') oi) (\<lambda>b.
     ebind (if \<not> b then Inr a
            else ebind (py_getitem oi (asc ''prunedResult'')) (\<lambda>pr.
                 if is_str pr then Inr (add_lines [pr] a)
                 else if is_dict pr then
                   ebind (py_in (asc ''rec_texts'') pr) (\<lambda>br.
                     if br then extend_rec_texts pr (asc ''rec_texts'') a else Inr a)
                 else Inr a)) (\<lambda>a1.
     ebind (has_typed (asc ''rec_texts'') oi is_list) (\<lambda>b2.
       if b2 then ebind (py_getitem oi (asc ''rec_texts'')) (\<lambda>rt.
                  ebind (py_iter rt) (\<lambda>ts. Inr (add_lines (filter nonblank_str ts) a1)))
       else Inr a1)))"

text \<open>One round of the loop over \<open>structureResults\<close>.\<close>

definition structure_item :: "json \<Rightarrow> acc \<Rightarrow> exn + acc" where
  "structure_item item a =
     ebind (has_typed (asc ''rec_texts'') item is_list) (\<lambda>b.
       if b then extend_rec_texts item (asc ''rec_texts'') a else Inr a)"

text \<open>The traversal of the result: the four format sections, in the source's order.\<close>

definition collect :: "json \<Rightarrow> exn + acc" where
  "collect res =
     ebind (has_typed (asc ''layoutParsingResults'') res is_list) (\<lambda>b1.
     ebind (if b1 then ebind (py_getitem res (asc ''layoutParsingResults'')) (\<lambda>l.
                       ebind (py_iter l) (\<lambda>items.
                         efold layout_item items
                           \<lparr> all_lines = [], markdown_text = [], tables_html = [],
                             layout_data = [] \<rparr>))
            else Inr \<lparr> all_lines = [], markdown_text = [], tables_html = [],
                       layout_data = [] \<rparr>) (\<lambda>a1.
     ebind (has_typed (asc ''ocrResults'') res is_list) (\<lambda>b2.
     ebind (if b2 then ebind (py_getitem res (asc ''ocrResults'')) (\<lambda>l.
                       ebind (py_iter l) (\<lambda>items. efold ocr_item items a1))
            else Inr a1) (\<lambda>a2.
     ebind (if all_lines a2 = [] then py_in (asc ''rec_texts'') res else Inr False) (\<lambda>b3.
     ebind (if b3 then ebind (has_typed (asc ''rec_texts'') res is_list) (\<lambda>bl.
                       if bl then ebind (py_getitem res (asc ''rec_texts'')) (\<lambda>rt.
                                  ebind (py_iter rt) (\<lambda>ts.
                                    Inr (add_lines (filter nonblank_str ts) a2)))
                       else Inr a2)
            else Inr a2) (\<lambda>a3.
     ebind (if all_lines a3 = [] then py_in (asc ''structureResults'') res else Inr False)
       (\<lambda>b4.
       if b4 then ebind (py_getitem res (asc ''structureResults'')) (\<lambda>sr.
                  ebind (py_iter sr) (\<lambda>items. efold structure_item items a3))
       else Inr a3)))))))"

text \<open>\<open>list(res.keys())\<close>: only a dict has keys.\<close>

definition py_keys :: "json \<Rightarrow> exn + json" where
  "py_keys v =
     (case v of
        JObj kvs \<Rightarrow> Inr (JArr (map JStr (remdups (map fst kvs))))
      | _ \<Rightarrow> Inl AttributeError)"

definition msg_no_text_found :: pystr where
  "msg_no_text_found =
     [26410, 25214, 21040, 25991, 23383, 12290, 32467, 26524, 38190, 58, 32]"

text \<open>The end of \<open>_parse_result\<close>: the dictionary built from what was collected.\<close>

definition build_result :: "pyenv \<Rightarrow> json \<Rightarrow> json \<Rightarrow> acc \<Rightarrow> exn + response" where
  "build_result env json_data res a =
     (if all_lines a = [] \<and> markdown_text a = [] \<and> tables_html a = []
      then ebind (py_keys res) (\<lambda>ks.
             Inr (EmptyResp (msg_no_text_found @ py_repr env ks)
                            (take 500 (py_str env json_data))))
      else ebind (if markdown_text a \<noteq> [] then Inr (strip (markdown_text a))
                  else py_join [10] (all_lines a)) (\<lambda>final_text.
             Inr (ResultResp (if all_lines a \<noteq> [] then all_lines a else [JStr final_text])
                    (markdown_text a) (tables_html a) (layout_data a) res)))"

definition parse_result :: "pyenv \<Rightarrow> json \<Rightarrow> exn + response" where
  "parse_result env json_data =
     ebind (py_get json_data (asc ''result'') (JObj [])) (\<lambda>res.
     ebind (collect res) (\<lambda>a. build_result env json_data res a))"

subsection \<open>\<open>ocr_file\<close>\<close>

text \<open>
  The network is the environment: for each attempt (numbered from 0) it either raises
  from \<open>session.post\<close> or answers with a status code, a body, and what \<open>response.json()\<close>
  gives (a value, or an exception).
\<close>

record http_response =
  status_code :: int
  body_text :: pystr
  json_body :: "exn + json"

type_synonym network = "nat \<Rightarrow> exn + http_response"

definition msg_task_stopped :: pystr where
  "msg_task_stopped = [20219, 21153, 24050, 34987, 29992, 25143, 32456, 27490]"

definition msg_missing_1 :: pystr where
  "msg_missing_1 = [32570, 23569, 32]"

definition msg_missing_2 :: pystr where
  "msg_missing_2 =
     [32, 30340, 32, 85, 82, 76, 32, 25110, 32, 84, 111, 107, 101, 110, 65292, 35831,
      22312, 35774, 32622, 20013, 37197, 32622, 12290]"

definition msg_timeout :: pystr where
  "msg_timeout =
     [35831, 27714, 36229, 26102, 65292, 35831, 26816, 26597, 32593, 32476, 25110, 31245,
      21518, 37325, 35797]"

definition msg_connection :: pystr where
  "msg_connection = [36830, 25509, 38169, 35823, 58, 32]"

definition msg_exception :: pystr where
  "msg_exception = [24322, 24120, 58, 32]"

definition msg_request_failed :: pystr where
  "msg_request_failed = [35831, 27714, 22833, 36133]"

definition msg_api_error :: pystr where
  "msg_api_error = [65, 80, 73, 38169, 35823, 58, 32]"

definition stopped_response :: response where
  "stopped_response = ErrorResp msg_task_stopped None"

text \<open>
  \<open>stop_event and stop_event.is_set()\<close>: with no event given nothing is read.
\<close>

definition check_stop :: "token option \<Rightarrow> trace \<Rightarrow> bool \<times> trace" where
  "check_stop stop_ev tr =
     (case stop_ev of None \<Rightarrow> (False, tr) | Some tok \<Rightarrow> is_set tok tr)"

text \<open>\<open>x != 0\<close>.\<close>

definition py_ne_zero :: "json \<Rightarrow> bool" where
  "py_ne_zero v =
     (case v of
        JInt n \<Rightarrow> n \<noteq> 0
      | JBool b \<Rightarrow> b
      | JFloat f \<Rightarrow> \<not> float_is_zero f
      | _ \<Rightarrow> True)"

text \<open>
  What follows \<open>result_json = response.json()\<close> in the \<open>try\<close> block: the embedded error
  code, then \<open>_parse_result\<close>.
\<close>

definition after_json :: "pyenv \<Rightarrow> json \<Rightarrow> exn + response" where
  "after_json env result_json =
     ebind (py_in (asc ''errorCode'') result_json) (\<lambda>has.
     ebind (if has then ebind (py_getitem result_json (asc ''errorCode'')) (\<lambda>c.
                         Inr (py_ne_zero c))
            else Inr False) (\<lambda>bad.
       if bad
       then ebind (py_get result_json (asc ''errorMsg'') JNull) (\<lambda>m.
              Inr (ErrorResp (msg_api_error @ py_str env m)
                             (Some (take 500 (py_str env result_json)))))
       else parse_result env result_json))"

text \<open>
  What the \<open>try\<close> block does with a response, once the stop event has been looked at:
  the status code, \<open>response.json()\<close>, the embedded error code, \<open>_parse_result\<close>.
\<close>

definition handle_response :: "pyenv \<Rightarrow> http_response \<Rightarrow> exn + response" where
  "handle_response env response =
     (if status_code response \<noteq> 200
      then Inr (ErrorResp (asc ''HTTP '' @ py_repr env (JInt (status_code response)))
                          (Some (take 500 (body_text response))))
      else (case json_body response of
              Inl e \<Rightarrow> Inl e
            | Inr result_json \<Rightarrow> after_json env result_json))"

text \<open>
  The body of the \<open>try\<close> block of one attempt.  \<open>Inl\<close> is an exception leaving the
  block, \<open>Inr\<close> a value returned from \<open>ocr_file\<close>.
\<close>

definition attempt_body ::
  "pyenv \<Rightarrow> network \<Rightarrow> int \<Rightarrow> token option \<Rightarrow> nat \<Rightarrow> trace \<Rightarrow> (exn + response) \<times> trace" where
  "attempt_body env net file_type stop_ev attempt tr =
     (let (b1, tr1) = check_stop stop_ev tr
      in if b1 then (Inr stopped_response, tr1)
         else let tr2 = log (HttpPost attempt file_type) tr1
              in (case net attempt of
                    Inl e \<Rightarrow> (Inl e, tr2)
                  | Inr response \<Rightarrow>
                      (let (b2, tr3) = check_stop stop_ev tr2
                       in if b2 then (Inr stopped_response, tr3)
                          else (handle_response env response, tr3))))"

definition max_retries :: nat where
  "max_retries = 2"

text \<open>\<open>last_error or "..."\<close>.\<close>

definition last_error_or :: "pystr option \<Rightarrow> pystr \<Rightarrow> pystr" where
  "last_error_or last_error dflt =
     (case last_error of None \<Rightarrow> dflt | Some m \<Rightarrow> if m = [] then dflt else m)"

text \<open>
  The retry loop \<open>for attempt in range(max_retries + 1)\<close> with its three handlers, in
  the source's order: a timeout and a connection error are remembered and, if an attempt
  is left, retried after \<open>time.sleep(1)\<close>; any other exception is turned into an error
  response.  The connection and the general handler look at the stop event first.
\<close>

fun ocr_attempts ::
  "pyenv \<Rightarrow> network \<Rightarrow> int \<Rightarrow> token option \<Rightarrow> nat list \<Rightarrow> pystr option \<Rightarrow> trace
     \<Rightarrow> (exn + response) \<times> trace" where
  "ocr_attempts env net file_type stop_ev [] last_error tr =
     (Inr (ErrorResp (last_error_or last_error msg_request_failed) None), tr)"
| "ocr_attempts env net file_type stop_ev (attempt # rest) last_error tr =
     (case attempt_body env net file_type stop_ev attempt tr of
        (Inr r, tr1) \<Rightarrow> (Inr r, tr1)
      | (Inl Timeout, tr1) \<Rightarrow>
          ocr_attempts env net file_type stop_ev rest (Some msg_timeout)
            (if attempt < max_retries then log (Sleep 10) tr1 else tr1)
      | (Inl (ConnectionError m), tr1) \<Rightarrow>
          (let (b, tr2) = check_stop stop_ev tr1
           in if b then (Inr stopped_response, tr2)
              else ocr_attempts env net file_type stop_ev rest
                     (Some (msg_connection @ take 80 m))
                     (if attempt < max_retries then log (Sleep 10) tr2 else tr2))
      | (Inl e, tr1) \<Rightarrow>
          (let (b, tr2) = check_stop stop_ev tr1
           in if b then (Inr stopped_response, tr2)
              else (Inr (ErrorResp (msg_exception @ str_exn env e) None), tr2)))"

text \<open>
  \<open>PaddleOCRClient.ocr_file\<close>.  Of the payload only \<open>fileType\<close> is recorded with the
  request: the payload decides what is sent, not how the answer is handled.
\<close>

definition ocr_file ::
  "pyenv \<Rightarrow> config \<Rightarrow> network \<Rightarrow> nat list \<Rightarrow> int \<Rightarrow> pystr option \<Rightarrow> token option \<Rightarrow> trace
     \<Rightarrow> (exn + response) \<times> trace" where
  "ocr_file env cfg net file_data file_type model_ovr stop_ev tr =
     (let (b, tr1) = check_stop stop_ev tr
      in if b then (Inr stopped_response, tr1)
         else let model = (if falsy_str model_ovr then current_model cfg else model_ovr);
                  model_cfg = get_model_config cfg model
              in if falsy_str (url model_cfg) \<or> falsy_str (auth_token model_cfg)
                 then (Inr (ErrorResp
                              (msg_missing_1 @ (case model of None \<Rightarrow> asc ''None'' | Some n \<Rightarrow> n)
                                 @ msg_missing_2) None), tr1)
                 else ocr_attempts env net file_type stop_ev [0 ..< max_retries + 1] None tr1)"

subsection \<open>Vocabulary for the client's contract\<close>

text \<open>No event was given, or the event given is never set.\<close>

definition not_cancelled :: "token option \<Rightarrow> bool" where
  "not_cancelled stop_ev = (case stop_ev of None \<Rightarrow> True | Some tok \<Rightarrow> tok = None)"

text \<open>The model to use has both a URL and a token configured.\<close>

definition ocr_configured :: "config \<Rightarrow> pystr option \<Rightarrow> bool" where
  "ocr_configured cfg model_ovr =
     (let model_cfg = get_model_config cfg
                        (if falsy_str model_ovr then current_model cfg else model_ovr)
      in \<not> falsy_str (url model_cfg) \<and> \<not> falsy_str (auth_token model_cfg))"

text \<open>What a look at such an event leaves in the trace.\<close>

definition reads :: "token option \<Rightarrow> trace" where
  "reads stop_ev = (case stop_ev of None \<Rightarrow> [] | Some tok \<Rightarrow> [ReadStop False])"

text \<open>The failures that are retried: a timeout and a connection error.\<close>

definition transient :: "exn + http_response \<Rightarrow> bool" where
  "transient out =
     (case out of
        Inl Timeout \<Rightarrow> True
      | Inl (ConnectionError m) \<Rightarrow> True
      | _ \<Rightarrow> False)"

text \<open>The requests and the back-off sleeps of a trace, in order.\<close>

definition is_net_action :: "action \<Rightarrow> bool" where
  "is_net_action a = (case a of HttpPost k ft \<Rightarrow> True | Sleep d \<Rightarrow> True | _ \<Rightarrow> False)"

definition net_actions :: "trace \<Rightarrow> trace" where
  "net_actions tr = filter is_net_action tr"

text \<open>
  The longest run of requests a list of attempts allows: each attempt's request, followed
  by a one-second sleep when a retry is left.
\<close>

fun retry_pattern :: "int \<Rightarrow> nat list \<Rightarrow> trace" where
  "retry_pattern ft [] = []"
| "retry_pattern ft (a # rest) =
     HttpPost a ft # (if a < max_retries then [Sleep 10] else []) @ retry_pattern ft rest"

subsection \<open>Concrete inputs for the client\<close>

definition demo_env :: pyenv where
  "demo_env = \<lparr> py_repr = (\<lambda>v. asc ''<repr>''), builtin_msg = (\<lambda>e. asc ''<error>''),
                str_lower = (\<lambda>s. s) \<rparr>"

definition demo_config :: config where
  "demo_config =
     \<lparr> current_model = Some (asc ''PP-OCRv5''),
       models = [(asc ''PP-OCRv5'',
                  \<lparr> url = Some (asc ''http://ocr''), auth_token = Some (asc ''secret'') \<rparr>)] \<rparr>"

text \<open>A plain-OCR answer with one recognised line.\<close>

definition demo_json :: json where
  "demo_json =
     JObj [(asc ''result'',
            JObj [(asc ''ocrResults'',
                   JArr [JObj [(asc ''prunedResult'',
                               JObj [(asc ''rec_texts'', JArr [JStr (asc ''hi'')])])]])])]"

definition demo_ok :: http_response where
  "demo_ok = \<lparr> status_code = 200, body_text = asc ''{...}'', json_body = Inr demo_json \<rparr>"

definition demo_500 :: http_response where
  "demo_500 = \<lparr> status_code = 500, body_text = asc ''oops'',
                json_body = Inl (OtherException (asc ''no json'')) \<rparr>"

definition demo_error_code :: http_response where
  "demo_error_code =
     \<lparr> status_code = 200, body_text = asc ''{...}'',
       json_body = Inr (JObj [(asc ''errorCode'', JInt 7), (asc ''errorMsg'', JStr (asc ''bad''))]) \<rparr>"

text \<open>Two timeouts, then an answer; and networks that answer at once.\<close>

definition net_flaky :: network where
  "net_flaky k = (if k < 2 then Inl Timeout else Inr demo_ok)"

definition net_ok :: network where
  "net_ok k = Inr demo_ok"

definition net_500 :: network where
  "net_500 k = Inr demo_500"

definition net_error_code :: network where
  "net_error_code k = Inr demo_error_code"

definition demo_result :: response where
  "demo_result =
     ResultResp [JStr (asc ''hi'')] [] [] []
       (JObj [(asc ''ocrResults'',
               JArr [JObj [(asc ''prunedResult'',
                           JObj [(asc ''rec_texts'', JArr [JStr (asc ''hi'')])])]])])"

section \<open>The batch worker and the coordinator (services/batch_processor.py)\<close>

record batch_worker =
  mode :: pystr
  files :: "pystr list"
  model_override :: "pystr option"
  output_dir :: pystr
  export_fmt :: pystr
  max_workers :: nat
  row_indices :: "int list"
  stop_event :: bool
  completed_count :: nat

text \<open>
  \<open>BatchWorker.__init__\<close>.  The argument \<open>row_indices\<close> is \<open>None\<close> or a list; the source
  keeps it when it is truthy (a non-empty list) and takes \<open>list(range(len(files)))\<close>
  otherwise.  The stop event starts cleared.
\<close>

definition BatchWorker_init ::
  "pystr \<Rightarrow> pystr list \<Rightarrow> pystr option \<Rightarrow> pystr \<Rightarrow> pystr \<Rightarrow> nat \<Rightarrow> int list option
     \<Rightarrow> batch_worker" where
  "BatchWorker_init md fs mo od ef mw ri =
     \<lparr> mode = md, files = fs, model_override = mo, output_dir = od, export_fmt = ef,
       max_workers = mw,
       row_indices = (case ri of
                        None \<Rightarrow> map int [0 ..< length fs]
                      | Some r \<Rightarrow> if r \<noteq> [] then r else map int [0 ..< length fs]),
       stop_event = False,
       completed_count = 0 \<rparr>"

text \<open>\<open>BatchWorker.stop\<close>: \<open>self._stop_event.set()\<close>.\<close>

definition BatchWorker_stop :: "batch_worker \<Rightarrow> batch_worker" where
  "BatchWorker_stop w = w\<lparr>stop_event := True\<rparr>"

text \<open>
  The display slot of an internal index, as computed at the head of
  \<open>process_single_file\<close> and in \<open>run\<close>:
  \<open>self.row_indices[index] if index < len(self.row_indices) else index\<close>.
  The list access is Python's, which raises out of range.
\<close>

definition row_index :: "batch_worker \<Rightarrow> nat \<Rightarrow> exn + int" where
  "row_index w index =
     (if index < length (row_indices w) then py_index (row_indices w) index
      else Inr (int index))"

record batch_processor =
  current_worker :: "batch_worker option"

text \<open>\<open>BatchProcessor.__init__\<close>, \<open>process\<close> (with its two defaults) and \<open>stop\<close>.\<close>

definition BatchProcessor_init :: batch_processor where
  "BatchProcessor_init = \<lparr> current_worker = None \<rparr>"

definition BatchProcessor_process ::
  "pystr \<Rightarrow> batch_processor \<Rightarrow> pystr \<Rightarrow> pystr list \<Rightarrow> pystr option \<Rightarrow> pystr option
     \<Rightarrow> pystr option \<Rightarrow> nat \<Rightarrow> int list option \<Rightarrow> batch_processor" where
  "BatchProcessor_process cfg_dir p md fs mo od ef mw ri =
     (let od' = (case od of None \<Rightarrow> cfg_dir | Some d \<Rightarrow> if d = [] then cfg_dir else d);
          ef' = (case ef of None \<Rightarrow> asc ''TXT'' | Some f \<Rightarrow> if f = [] then asc ''TXT'' else f)
      in p\<lparr>current_worker := Some (BatchWorker_init md fs mo od' ef' mw ri)\<rparr>)"

definition BatchProcessor_stop :: "batch_processor \<Rightarrow> batch_processor" where
  "BatchProcessor_stop p =
     (case current_worker p of
        None \<Rightarrow> p
      | Some w \<Rightarrow> p\<lparr>current_worker := Some (BatchWorker_stop w)\<rparr>)"

section \<open>Exporting (\<open>BatchWorker.save_results\<close>)\<close>

subsection \<open>Markdown tables\<close>

text \<open>
  \<open>parse_markdown_table\<close>: the state of its loop is the list of finished tables, the
  table being collected and the flag \<open>in_table\<close>.
\<close>

definition is_separator_char :: "nat \<Rightarrow> bool" where
  "is_separator_char c = (c = 124 \<or> c = 45 \<or> c = 58 \<or> c = 32)"

definition md_line ::
  "pystr \<Rightarrow> pystr list list list \<times> pystr list list \<times> bool
     \<Rightarrow> pystr list list list \<times> pystr list list \<times> bool" where
  "md_line raw st =
     (case st of (tables, current_table, in_table) \<Rightarrow>
        let line = strip raw
        in if line \<noteq> [] \<and> hd line = 124 \<and> last line = 124
           then if filter (\<lambda>c. \<not> is_separator_char c) line = [] then st
                else let cells = map strip (butlast (tl (split_on 124 line)))
                     in if cells \<noteq> [] then (tables, current_table @ [cells], True) else st
           else if in_table \<and> current_table \<noteq> []
                then (tables @ [current_table], [], False)
                else st)"

definition parse_markdown_table :: "pystr \<Rightarrow> pystr list list list option" where
  "parse_markdown_table md_text =
     (case foldl (\<lambda>st raw. md_line raw st) ([], [], False) (split_on 10 md_text) of
        (tables, current_table, in_table) \<Rightarrow>
          let tables' = (if current_table \<noteq> [] then tables @ [current_table] else tables)
          in if tables' \<noteq> [] then Some tables' else None)"

subsection \<open>The environment of an export\<close>

text \<open>
  What the export meets outside the program: for each of the three optional libraries
  the exception that importing and using it raises before the document is saved (an
  \<open>ImportError\<close> when it is not installed), for each path the exception that writing
  the file raises, and the number of tables \<open>parse_html_tables\<close> finds in a fragment
  (the HTML tokenizer is Python's).  Of a written file only the path is recorded.
\<close>

record export_env =
  docx_lib :: "exn option"
  openpyxl_lib :: "exn option"
  reportlab_lib :: "exn option"
  write_error :: "pystr \<Rightarrow> exn option"
  html_table_count :: "json \<Rightarrow> nat"

definition write_file :: "export_env \<Rightarrow> pystr \<Rightarrow> trace \<Rightarrow> (exn + unit) \<times> trace" where
  "write_file xenv path tr =
     (case write_error xenv path of
        None \<Rightarrow> (Inr (), log (WriteFile path) tr)
      | Some e \<Rightarrow> (Inl e, tr))"

definition use_lib :: "exn option \<Rightarrow> exn + unit" where
  "use_lib lib = (case lib of None \<Rightarrow> Inr () | Some e \<Rightarrow> Inl e)"

text \<open>Decimal digits of a number, as an f-string prints it.\<close>

fun dec :: "nat \<Rightarrow> pystr" where
  "dec n = (if n < 10 then [48 + n] else dec (n div 10) @ [48 + n mod 10])"

subsection \<open>Messages\<close>

definition msg_exported :: pystr where
  "msg_exported = [24050, 23548, 20986, 58, 32]"

definition msg_searchable_pdf_wip :: pystr where
  "msg_searchable_pdf_wip =
     [32, 40, 21487, 25628, 32034, 80, 68, 70, 24320, 21457, 20013, 41]"

definition msg_annotated_wip :: pystr where
  "msg_annotated_wip = [32, 40, 26631, 27880, 22270, 29255, 24320, 21457, 20013, 41]"

definition msg_need_docx :: pystr where
  "msg_need_docx =
     [23548, 20986, 22833, 36133, 58, 32, 38656, 35201, 23433, 35013, 112, 121, 116, 104,
      111, 110, 45, 100, 111, 99, 120, 32, 40, 24050, 20445, 23384, 20026, 77, 68, 41]"

definition msg_docx_failed :: pystr where
  "msg_docx_failed = [68, 79, 67, 88, 23548, 20986, 22833, 36133, 58, 32]"

definition msg_tables_suffix :: pystr where
  "msg_tables_suffix = [20010, 34920, 26684, 41]"

definition msg_need_openpyxl :: pystr where
  "msg_need_openpyxl =
     [23548, 20986, 22833, 36133, 58, 32, 38656, 35201, 23433, 35013, 111, 112, 101, 110,
      112, 121, 120, 108, 32, 40, 24050, 20445, 23384, 20026, 67, 83, 86, 41]"

definition msg_excel_failed :: pystr where
  "msg_excel_failed = [69, 120, 99, 101, 108, 23548, 20986, 22833, 36133, 58, 32]"

definition msg_need_reportlab :: pystr where
  "msg_need_reportlab =
     [23548, 20986, 22833, 36133, 58, 32, 38656, 35201, 23433, 35013, 114, 101, 112, 111,
      114, 116, 108, 97, 98, 32, 40, 24050, 20445, 23384, 20026, 77, 68, 41]"

definition msg_pdf_failed :: pystr where
  "msg_pdf_failed = [80, 68, 70, 23548, 20986, 22833, 36133, 58, 32]"

definition msg_export_error :: pystr where
  "msg_export_error = [23548, 20986, 38169, 35823, 58, 32]"

text \<open>The Chinese keywords of the format dispatch.\<close>

definition kw_searchable_pdf :: pystr where
  "kw_searchable_pdf = [21487, 25628, 32034, 112, 100, 102]"

definition kw_annotated :: pystr where
  "kw_annotated = [24102, 26631, 27880]"

definition kw_layout_tree :: pystr where
  "kw_layout_tree = [29256, 38754, 26641]"

definition kw_searchable :: pystr where
  "kw_searchable = [21487, 25628, 32034]"

definition kw_formula :: pystr where
  "kw_formula = [20844, 24335]"

definition kw_semantic :: pystr where
  "kw_semantic = [35821, 20041]"

definition kw_narrative :: pystr where
  "kw_narrative = [21465, 36848]"

definition kw_code :: pystr where
  "kw_code = [20195, 30721]"

subsection \<open>The format dispatch\<close>

datatype export_kind =
    KTxt | KJson | KCsv | KSearchablePdf | KAnnotated | KDocx | KXlsx | KMarkdown | KHtml
  | KLayout | KPdf | KLatex | KSemantic | KNarrative | KCode | KOther

text \<open>The \<open>if\<close>/\<open>elif\<close> chain on the lower-cased format, in the source's order.\<close>

definition export_kind_of :: "pystr \<Rightarrow> export_kind" where
  "export_kind_of fmt =
     (if fmt = asc ''txt'' then KTxt
      else if fmt = asc ''json'' then KJson
      else if str_contains (asc ''csv'') fmt then KCsv
      else if str_contains kw_searchable_pdf fmt then KSearchablePdf
      else if str_contains kw_annotated fmt then KAnnotated
      else if str_contains (asc ''docx'') fmt \<or> str_contains (asc ''word'') fmt then KDocx
      else if str_contains (asc ''xlsx'') fmt \<or> str_contains (asc ''excel'') fmt then KXlsx
      else if str_contains (asc ''markdown'') fmt \<or> str_contains (asc ''md'') fmt
           then KMarkdown
      else if str_contains (asc ''html'') fmt then KHtml
      else if str_contains kw_layout_tree fmt \<or> str_contains (asc ''layout'') fmt
           then KLayout
      else if str_contains (asc ''pdf'') fmt \<and> \<not> str_contains kw_searchable fmt then KPdf
      else if str_contains (asc ''latex'') fmt \<or> str_contains kw_formula fmt then KLatex
      else if str_contains kw_semantic fmt \<or> str_contains (asc ''kvp'') fmt then KSemantic
      else if str_contains kw_narrative fmt \<or> str_contains (asc ''narrative'') fmt
           then KNarrative
      else if str_contains kw_code fmt \<or> str_contains (asc ''code'') fmt then KCode
      else KOther)"

subsection \<open>\<open>save_results\<close>\<close>

text \<open>\<open>base_name\<close> and the local function \<open>p(ext)\<close>.\<close>

definition base_name :: "pystr \<Rightarrow> pystr" where
  "base_name filepath = fst (splitext (basename filepath))"

definition out_path :: "batch_worker \<Rightarrow> pystr \<Rightarrow> pystr \<Rightarrow> pystr" where
  "out_path w filepath ext = path_join (output_dir w) (base_name filepath @ [46] @ ext)"

text \<open>The message of a successful export: the "exported" prefix, then \<open>{base_name}.{ext}\<close>.\<close>

definition exported :: "pystr \<Rightarrow> pystr \<Rightarrow> pystr" where
  "exported filepath ext = msg_exported @ base_name filepath @ [46] @ ext"

text \<open>Write one file and return a message: the shape of most branches.\<close>

definition write_then ::
  "export_env \<Rightarrow> pystr \<Rightarrow> pystr \<Rightarrow> trace \<Rightarrow> (exn + pystr) \<times> trace" where
  "write_then xenv path msg tr =
     (case write_file xenv path tr of
        (Inl e, tr1) \<Rightarrow> (Inl e, tr1)
      | (Inr u, tr1) \<Rightarrow> (Inr msg, tr1))"

text \<open>
  The inner \<open>try\<close> of the DOCX and the PDF branch: the library, then the save; on
  \<open>ImportError\<close> and on any other exception a Markdown file is written instead.
\<close>

definition doc_branch ::
  "pyenv \<Rightarrow> export_env \<Rightarrow> exn option \<Rightarrow> pystr \<Rightarrow> pystr \<Rightarrow> pystr \<Rightarrow> pystr \<Rightarrow> pystr
     \<Rightarrow> trace \<Rightarrow> (exn + pystr) \<times> trace" where
  "doc_branch env xenv lib path ok_msg md_path need_msg failed_msg tr =
     (case (case use_lib lib of
              Inl e \<Rightarrow> (Inl e, tr)
            | Inr u \<Rightarrow> write_then xenv path ok_msg tr) of
        (Inr m, tr1) \<Rightarrow> (Inr m, tr1)
      | (Inl ImportError, tr1) \<Rightarrow> write_then xenv md_path need_msg tr1
      | (Inl e, tr1) \<Rightarrow> write_then xenv md_path (failed_msg @ take 30 (str_exn env e)) tr1)"

text \<open>The body of the inner \<open>try\<close> of the Excel branch.\<close>

definition xlsx_body ::
  "export_env \<Rightarrow> batch_worker \<Rightarrow> pystr \<Rightarrow> pystr \<Rightarrow> json list \<Rightarrow> json list \<Rightarrow> trace
     \<Rightarrow> (exn + pystr) \<times> trace" where
  "xlsx_body xenv w filepath markdown tables layout tr =
     (case use_lib (openpyxl_lib xenv) of
        Inl e \<Rightarrow> (Inl e, tr)
      | Inr u \<Rightarrow>
          if tables \<noteq> []
          then write_then xenv (out_path w filepath (asc ''xlsx''))
                 (exported filepath (asc ''xlsx'') @ [32, 40]
                    @ dec (sum_list (map (html_table_count xenv) tables)) @ msg_tables_suffix) tr
          else (case (if markdown \<noteq> [] then parse_markdown_table markdown else None) of
                  Some md_tables \<Rightarrow>
                    write_then xenv (out_path w filepath (asc ''xlsx''))
                      (exported filepath (asc ''xlsx'') @ [32, 40]
                         @ dec (length md_tables) @ msg_tables_suffix) tr
                | None \<Rightarrow>
                    (case (if layout \<noteq> []
                           then efold (\<lambda>block u.
                                  ebind (py_get block (asc ''label'') (JStr (asc ''text'')))
                                    (\<lambda>l. ebind (py_get block (asc ''content'') (JStr []))
                                      (\<lambda>c. Inr ()))) layout ()
                           else Inr ()) of
                       Inl e \<Rightarrow> (Inl e, tr)
                     | Inr u \<Rightarrow>
                         write_then xenv (out_path w filepath (asc ''xlsx''))
                           (exported filepath (asc ''xlsx'')) tr)))"

definition xlsx_branch ::
  "pyenv \<Rightarrow> export_env \<Rightarrow> batch_worker \<Rightarrow> pystr \<Rightarrow> pystr \<Rightarrow> json list \<Rightarrow> json list
     \<Rightarrow> trace \<Rightarrow> (exn + pystr) \<times> trace" where
  "xlsx_branch env xenv w filepath markdown tables layout tr =
     (case xlsx_body xenv w filepath markdown tables layout tr of
        (Inr m, tr1) \<Rightarrow> (Inr m, tr1)
      | (Inl ImportError, tr1) \<Rightarrow>
          write_then xenv (out_path w filepath (asc ''csv'')) msg_need_openpyxl tr1
      | (Inl e, tr1) \<Rightarrow> (Inr (msg_excel_failed @ take 30 (str_exn env e)), tr1))"

text \<open>
  The body of the outer \<open>try\<close>.  In the HTML branch the tables are joined before the
  file is opened, which raises on a fragment that is not a string.
\<close>

definition export_body ::
  "pyenv \<Rightarrow> export_env \<Rightarrow> batch_worker \<Rightarrow> pystr \<Rightarrow> pystr \<Rightarrow> pystr \<Rightarrow> json list
     \<Rightarrow> json list \<Rightarrow> json \<Rightarrow> trace \<Rightarrow> (exn + pystr) \<times> trace" where
  "export_body env xenv w filepath text markdown tables layout raw_result tr =
     (let p = out_path w filepath; done = exported filepath
      in case export_kind_of (str_lower env (export_fmt w)) of
           KTxt \<Rightarrow> write_then xenv (p (asc ''txt'')) (done (asc ''txt'')) tr
         | KJson \<Rightarrow> write_then xenv (p (asc ''json'')) (done (asc ''json'')) tr
         | KCsv \<Rightarrow> write_then xenv (p (asc ''csv'')) (done (asc ''csv'')) tr
         | KSearchablePdf \<Rightarrow>
             write_then xenv (p (asc ''txt'')) (done (asc ''txt'') @ msg_searchable_pdf_wip) tr
         | KAnnotated \<Rightarrow>
             write_then xenv (p (asc ''txt'')) (done (asc ''txt'') @ msg_annotated_wip) tr
         | KDocx \<Rightarrow>
             doc_branch env xenv (docx_lib xenv) (p (asc ''docx'')) (done (asc ''docx''))
               (p (asc ''md'')) msg_need_docx msg_docx_failed tr
         | KXlsx \<Rightarrow> xlsx_branch env xenv w filepath markdown tables layout tr
         | KMarkdown \<Rightarrow> write_then xenv (p (asc ''md'')) (done (asc ''md'')) tr
         | KHtml \<Rightarrow>
             (case (if tables \<noteq> [] then py_join (asc ''<hr>'') tables else Inr []) of
                Inl e \<Rightarrow> (Inl e, tr)
              | Inr joined \<Rightarrow> write_then xenv (p (asc ''html'')) (done (asc ''html'')) tr)
         | KLayout \<Rightarrow> write_then xenv (p (asc ''json'')) (done (asc ''json'')) tr
         | KPdf \<Rightarrow>
             doc_branch env xenv (reportlab_lib xenv) (p (asc ''pdf'')) (done (asc ''pdf''))
               (p (asc ''md'')) msg_need_reportlab msg_pdf_failed tr
         | KLatex \<Rightarrow> write_then xenv (p (asc ''tex'')) (done (asc ''tex'')) tr
         | KSemantic \<Rightarrow> write_then xenv (p (asc ''json'')) (done (asc ''json'')) tr
         | KNarrative \<Rightarrow> write_then xenv (p (asc ''txt'')) (done (asc ''txt'')) tr
         | KCode \<Rightarrow> write_then xenv (p (asc ''py'')) (done (asc ''py'')) tr
         | KOther \<Rightarrow> write_then xenv (p (asc ''txt'')) (done (asc ''txt'')) tr)"

text \<open>\<open>save_results\<close>: the outer handler turns any exception into a message.\<close>

definition save_results ::
  "pyenv \<Rightarrow> export_env \<Rightarrow> batch_worker \<Rightarrow> pystr \<Rightarrow> pystr \<Rightarrow> pystr \<Rightarrow> json list
     \<Rightarrow> json list \<Rightarrow> json \<Rightarrow> trace \<Rightarrow> (exn + pystr) \<times> trace" where
  "save_results env xenv w filepath text markdown tables layout raw_result tr =
     (case export_body env xenv w filepath text markdown tables layout raw_result tr of
        (Inr m, tr1) \<Rightarrow> (Inr m, tr1)
      | (Inl e, tr1) \<Rightarrow> (Inr (msg_export_error @ take 50 (str_exn env e)), tr1))"

text \<open>The extensions \<open>save_results\<close> can write to.\<close>

definition export_exts :: "pystr list" where
  "export_exts =
     [asc ''txt'', asc ''json'', asc ''csv'', asc ''md'', asc ''docx'', asc ''xlsx'',
      asc ''html'', asc ''pdf'', asc ''tex'', asc ''py'']"

text \<open>An export step either writes one file and gives a message, or raises.\<close>

definition wrote_or_raised ::
  "batch_worker \<Rightarrow> pystr \<Rightarrow> trace \<Rightarrow> (exn + pystr) \<times> trace \<Rightarrow> bool" where
  "wrote_or_raised w fp tr out =
     ((\<exists>m ext. out = (Inr m, tr @ [WriteFile (out_path w fp ext)]) \<and> m \<noteq> []
          \<and> ext \<in> set export_exts)
      \<or> (\<exists>e. out = (Inl e, tr)))"

subsection \<open>Concrete inputs for the export\<close>

definition demo_worker :: "pystr \<Rightarrow> batch_worker" where
  "demo_worker fmt =
     BatchWorker_init (asc ''images'') [asc ''in/a.png'', asc ''in/a.jpg''] None (asc ''out'')
       fmt 2 None"

text \<open>Everything installed and writable; no optional library; and no library on a full disk.\<close>

definition xenv_ok :: export_env where
  "xenv_ok = \<lparr> docx_lib = None, openpyxl_lib = None, reportlab_lib = None,
               write_error = (\<lambda>p. None), html_table_count = (\<lambda>v. 1) \<rparr>"



section \<open>The per-item pipeline (\<open>BatchWorker.process_single_file\<close>)\<close>

text \<open>
  The worker's stop event as a thread sees it: set from the start when \<open>stop()\<close> was
  called before, otherwise set at the time the schedule says.  Each thread (the one that
  runs \<open>run\<close>, and each pool thread that runs a pipeline) has its own trace, whose
  length is that thread's clock.
\<close>

definition worker_token :: "batch_worker \<Rightarrow> token \<Rightarrow> token" where
  "worker_token w sched = (if stop_event w then Some 0 else sched)"

definition msg_processing :: pystr where
  "msg_processing = [22788, 29702, 20013, 46, 46, 46]"

definition msg_user_stopped :: pystr where
  "msg_user_stopped = [29992, 25143, 24050, 32456, 27490, 20219, 21153]"

definition st_failed :: pystr where
  "st_failed = [22833, 36133]"

definition st_success :: pystr where
  "st_success = [25104, 21151]"

definition st_no_content :: pystr where
  "st_no_content = [26080, 20869, 23481]"

definition msg_no_text :: pystr where
  "msg_no_text = [26410, 35782, 21035, 21040, 25991, 23383]"

definition st_error :: pystr where
  "st_error = [38169, 35823]"

definition st_terminated :: pystr where
  "st_terminated = [24050, 32456, 27490]"

text \<open>What a pipeline meets: the content of its file (or the error of reading it), the
  network and the export environment.\<close>

record task_env =
  file_read :: "exn + nat list"
  task_net :: network
  task_xenv :: export_env

text \<open>The value returned: \<open>(index, row_index, status, result)\<close>, the status \<open>None\<close> when
  the pipeline was stopped.\<close>

type_synonym item_return = "nat \<times> int \<times> pystr option \<times> pystr"

definition stopped_return :: "nat \<Rightarrow> int \<Rightarrow> item_return" where
  "stopped_return index row = (index, row, None, msg_user_stopped)"

text \<open>The three signals of a terminal update, in the source's order.\<close>

definition emit_terminal :: "int \<Rightarrow> pystr \<Rightarrow> pystr \<Rightarrow> trace \<Rightarrow> trace" where
  "emit_terminal row status msg tr =
     log (ResultUpdate row msg) (log (ProgressUpdate row 100 100) (log (StatusUpdate row status) tr))"

text \<open>\<open>ext in ['.pdf', '.xps', '.epub', '.mobi', '.fb2', '.cbz']\<close> and \<open>file_type\<close>.\<close>

definition is_document :: "pyenv \<Rightarrow> pystr \<Rightarrow> bool" where
  "is_document env filepath =
     (str_lower env (snd (splitext filepath))
        \<in> set [asc ''.pdf'', asc ''.xps'', asc ''.epub'', asc ''.mobi'', asc ''.fb2'',
                asc ''.cbz''])"

definition file_type_of :: "pyenv \<Rightarrow> pystr \<Rightarrow> int" where
  "file_type_of env filepath = (if is_document env filepath then 0 else 1)"

text \<open>The strings among the lines of \<open>words_result\<close>.\<close>

fun text_lines_of :: "json list \<Rightarrow> pystr list" where
  "text_lines_of [] = []"
| "text_lines_of (JStr s # ls) = s # text_lines_of ls"
| "text_lines_of (_ # ls) = text_lines_of ls"

text \<open>
  What the pipeline does with the client's response, after the look at the stop event
  that follows the call: the error branch, the export and the success update, or the
  update for an empty result.
\<close>

definition deliver ::
  "pyenv \<Rightarrow> export_env \<Rightarrow> batch_worker \<Rightarrow> token \<Rightarrow> nat \<Rightarrow> int \<Rightarrow> pystr \<Rightarrow> response
     \<Rightarrow> trace \<Rightarrow> (exn + item_return) \<times> trace" where
  "deliver env xenv w tok index row filepath res tr =
     (case res of
        ErrorResp err raw \<Rightarrow>
          (let (b, tr1) = is_set tok tr
           in if b then (Inr (stopped_return index row), tr1)
              else let err_msg = err @ (case raw of
                                          None \<Rightarrow> []
                                        | Some r \<Rightarrow> [10] @ take 200 r @ asc ''...'')
                   in (Inr (index, row, Some st_failed, err_msg),
                       emit_terminal row st_failed err_msg tr1))
      | _ \<Rightarrow>
          (let ls = (case res of ResultResp l m t y r \<Rightarrow> l | _ \<Rightarrow> []);
               markdown = (case res of ResultResp l m t y r \<Rightarrow> m | _ \<Rightarrow> []);
               tables = (case res of ResultResp l m t y r \<Rightarrow> t | _ \<Rightarrow> []);
               layout = (case res of ResultResp l m t y r \<Rightarrow> y | _ \<Rightarrow> []);
               raw_result = (case res of ResultResp l m t y r \<Rightarrow> r | _ \<Rightarrow> JObj []);
               text_lines = text_lines_of ls;
               full_text = (if text_lines \<noteq> [] then join [10] text_lines else markdown)
           in if full_text \<noteq> [] \<or> tables \<noteq> []
              then (case save_results env xenv w filepath full_text markdown tables layout
                           raw_result tr of
                      (Inl e, tr1) \<Rightarrow> (Inl e, tr1)
                    | (Inr export_result, tr1) \<Rightarrow>
                        (let (b, tr2) = is_set tok tr1
                         in if b then (Inr (stopped_return index row), tr2)
                            else (Inr (index, row, Some st_success, export_result),
                                  emit_terminal row st_success export_result tr2)))
              else (let (b, tr1) = is_set tok tr
                    in if b then (Inr (stopped_return index row), tr1)
                       else (Inr (index, row, Some st_no_content, msg_no_text),
                             emit_terminal row st_no_content msg_no_text tr1))))"

text \<open>The \<open>try\<close> block of the pipeline.\<close>

definition pipeline_body ::
  "pyenv \<Rightarrow> config \<Rightarrow> task_env \<Rightarrow> batch_worker \<Rightarrow> token \<Rightarrow> nat \<Rightarrow> int \<Rightarrow> pystr \<Rightarrow> trace
     \<Rightarrow> (exn + item_return) \<times> trace" where
  "pipeline_body env cfg tenv w tok index row filepath tr =
     (let (b2, tr1) = is_set tok tr;
          tr2 = (if \<not> b2
                 then log (ProgressUpdate row 50 100) (log (StatusUpdate row msg_processing) tr1)
                 else tr1);
          (b3, tr3) = is_set tok tr2
      in if b3 then (Inr (stopped_return index row), tr3)
         else let tr4 = log (ReadFile filepath) tr3
              in (case file_read tenv of
                    Inl e \<Rightarrow> (Inl e, tr4)
                  | Inr file_bytes \<Rightarrow>
                      (let (b4, tr5) = is_set tok tr4
                       in if b4 then (Inr (stopped_return index row), tr5)
                          else (case ocr_file env cfg (task_net tenv) file_bytes
                                       (file_type_of env filepath) (model_override w)
                                       (Some tok) tr5 of
                                  (Inl e, tr6) \<Rightarrow> (Inl e, tr6)
                                | (Inr res, tr6) \<Rightarrow>
                                    (let (b5, tr7) = is_set tok tr6
                                     in if b5 then (Inr (stopped_return index row), tr7)
                                        else deliver env (task_xenv tenv) w tok index row
                                               filepath res tr7)))))"

text \<open>
  \<open>process_single_file\<close>: the display slot, the first look at the stop event, the
  \<open>try\<close> block and its handler.
\<close>

definition process_single_file ::
  "pyenv \<Rightarrow> config \<Rightarrow> task_env \<Rightarrow> batch_worker \<Rightarrow> token \<Rightarrow> nat \<Rightarrow> pystr \<Rightarrow> trace
     \<Rightarrow> (exn + item_return) \<times> trace" where
  "process_single_file env cfg tenv w tok index filepath tr =
     (case row_index w index of
        Inl e \<Rightarrow> (Inl e, tr)
      | Inr row \<Rightarrow>
          (let (b1, tr1) = is_set tok tr
           in if b1 then (Inr (stopped_return index row), tr1)
              else (case pipeline_body env cfg tenv w tok index row filepath tr1 of
                      (Inr r, tr2) \<Rightarrow> (Inr r, tr2)
                    | (Inl e, tr2) \<Rightarrow>
                        (let (b, tr3) = is_set tok tr2
                         in if b then (Inr (stopped_return index row), tr3)
                            else (Inr (index, row, Some st_error, str_exn env e),
                                  emit_terminal row st_error (take 100 (str_exn env e)) tr3)))))"

section \<open>The worker's main method (\<open>BatchWorker.run\<close>)\<close>

text \<open>
  What \<open>run\<close> meets on its own thread: whether the output directory exists, what
  \<open>os.makedirs\<close> raises when it does not, and for each submitted task the time (on the
  clock of this thread) from which \<open>future.done()\<close> is true.  Every task finishes at
  some time; that is what makes the wait for the tasks end.
\<close>

record job_env =
  dir_exists :: bool
  makedirs_error :: "exn option"
  done_at :: "nat \<Rightarrow> nat"

text \<open>\<open>future.done()\<close> for the future of item \<open>i\<close>.\<close>

definition poll_done :: "job_env \<Rightarrow> nat \<Rightarrow> trace \<Rightarrow> bool \<times> trace" where
  "poll_done jenv i tr = (let d = (done_at jenv i \<le> length tr) in (d, log (PollDone i d) tr))"

text \<open>
  One round over the pending futures: those that are done are dropped.  (The source
  keeps them in a set; here they are kept in the order of submission.)
\<close>

fun poll_all :: "job_env \<Rightarrow> nat list \<Rightarrow> trace \<Rightarrow> nat list \<times> trace" where
  "poll_all jenv [] tr = ([], tr)"
| "poll_all jenv (i # rest) tr =
     (let (d, tr1) = poll_done jenv i tr;
          (pending, tr2) = poll_all jenv rest tr1
      in (if d then pending else i # pending, tr2))"

text \<open>
  The loop \<open>while pending and not self._stop_event.is_set()\<close>.  It ends because the
  clock advances with every look at the stop event and every pending task is done from
  some time on.
\<close>

function drain :: "job_env \<Rightarrow> token \<Rightarrow> nat list \<Rightarrow> trace \<Rightarrow> nat list \<times> trace" where
  "drain jenv tok pending tr =
     (if pending = [] then (pending, tr)
      else let (b, tr1) = is_set tok tr
           in if b then (pending, tr1)
              else let (pending', tr2) = poll_all jenv pending tr1
                   in if pending' = [] then (pending', tr2)
                      else let (b2, tr3) = is_set tok tr2
                           in if b2 then drain jenv tok pending' tr3
                              else drain jenv tok pending' (log (Sleep 1) tr3))"
  by pat_completeness auto
termination
proof (relation "measure (\<lambda>(jenv, tok, pending, tr).
                   Suc (Max (done_at jenv ` set pending)) - length tr)")
  show "wf (measure (\<lambda>(jenv, tok, pending, tr).
                   Suc (Max (done_at jenv ` set pending)) - length tr))"
    by simp
next
  have poll: "\<And>jenv pending tr p tr'. poll_all jenv pending tr = (p, tr') \<Longrightarrow>
                set p \<subseteq> set pending \<and> length tr \<le> length tr'
                \<and> (\<forall>i\<in>set p. length tr < done_at jenv i)"
  proof -
    fix jenv pending tr p tr'
    show "poll_all jenv pending tr = (p, tr') \<Longrightarrow>
                set p \<subseteq> set pending \<and> length tr \<le> length tr'
                \<and> (\<forall>i\<in>set p. length tr < done_at jenv i)"
    proof (induction pending arbitrary: tr p tr')
      case Nil
      then show ?case by simp
    next
      case (Cons i rest)
      obtain p0 t0 where r: "poll_all jenv rest (log (PollDone i (done_at jenv i \<le> length tr)) tr)
                               = (p0, t0)"
        by (cases "poll_all jenv rest (log (PollDone i (done_at jenv i \<le> length tr)) tr)")
      from Cons.IH [OF r] have ih: "set p0 \<subseteq> set rest"
        "Suc (length tr) \<le> length t0" "\<forall>i\<in>set p0. Suc (length tr) < done_at jenv i"
        by (simp_all add: log_def)
      from Cons.prems r have "tr' = t0"
        "p = (if done_at jenv i \<le> length tr then p0 else i # p0)"
        by (simp_all add: poll_done_def Let_def)
      with ih show ?case by auto
    qed
  qed
  have dec: "Suc (Max (done_at jenv ` set p)) - length t3
               < Suc (Max (done_at jenv ` set pending)) - length tr"
    if "poll_all jenv pending tr1 = (p, tr2)" "p \<noteq> []" "length tr \<le> length tr1"
      "length tr2 < length t3" for jenv pending tr tr1 p tr2 t3
  proof -
    from poll [OF that(1)] have s: "set p \<subseteq> set pending" "length tr1 \<le> length tr2"
      "\<forall>i\<in>set p. length tr1 < done_at jenv i" by simp_all
    from that(2) obtain i where i: "i \<in> set p" by (cases p) auto
    have fin: "finite (done_at jenv ` set pending)" "finite (done_at jenv ` set p)" by simp_all
    have "Max (done_at jenv ` set p) \<le> Max (done_at jenv ` set pending)"
      using s(1) that(2) by (intro Max_mono) auto
    moreover have "length tr1 < Max (done_at jenv ` set p)"
      using s(3) i by (meson Max_ge fin(2) imageI less_le_trans)
    ultimately show ?thesis
      using that(3,4) s(2) by linarith
  qed
  fix jenv :: job_env and tok :: token and pending :: "nat list" and tr :: trace
    and x :: "bool \<times> trace" and b tr1 and xa :: "nat list \<times> trace" and p tr2
    and xb :: "bool \<times> trace" and b2 tr3
  assume a: "pending \<noteq> []" "x = is_set tok tr" "(b, tr1) = x" "\<not> b"
    "xa = poll_all jenv pending tr1" "(p, tr2) = xa" "p \<noteq> []"
    "xb = is_set tok tr2" "(b2, tr3) = xb"
  have l1: "length tr1 = Suc (length tr)" using a(2,3) by (auto simp: is_set_def log_def Let_def)
  have l3: "length tr3 = Suc (length tr2)" using a(8,9) by (auto simp: is_set_def log_def Let_def)
  have pa: "poll_all jenv pending tr1 = (p, tr2)" using a(5,6) by simp
  {
    assume "b2"
    show "((jenv, tok, p, tr3), jenv, tok, pending, tr)
            \<in> measure (\<lambda>(jenv, tok, pending, tr).
                   Suc (Max (done_at jenv ` set pending)) - length tr)"
      using dec [OF pa a(7), of tr tr3] l1 l3 by simp
  }
  {
    assume "\<not> b2"
    show "((jenv, tok, p, log (Sleep 1) tr3), jenv, tok, pending, tr)
            \<in> measure (\<lambda>(jenv, tok, pending, tr).
                   Suc (Max (done_at jenv ` set pending)) - length tr)"
      using dec [OF pa a(7), of tr "log (Sleep 1) tr3"] l1 l3 by (simp add: log_def)
  }
qed

declare drain.simps [simp del]

text \<open>
  Marking items as stopped: for each index the display slot, then the two signals.
\<close>

fun mark_stopped :: "batch_worker \<Rightarrow> nat list \<Rightarrow> trace \<Rightarrow> (exn + unit) \<times> trace" where
  "mark_stopped w [] tr = (Inr (), tr)"
| "mark_stopped w (j # js) tr =
     (case row_index w j of
        Inl e \<Rightarrow> (Inl e, tr)
      | Inr row \<Rightarrow>
          mark_stopped w js
            (log (ResultUpdate row msg_user_stopped) (log (StatusUpdate row st_terminated) tr)))"

text \<open>
  The first wait after a submission: up to \<open>n\<close> rounds of a look at the stop event
  and a sleep of 0.1 s.
\<close>

fun wait_poll :: "token \<Rightarrow> nat \<Rightarrow> trace \<Rightarrow> trace" where
  "wait_poll tok 0 tr = tr"
| "wait_poll tok (Suc n) tr =
     (let (b, tr1) = is_set tok tr
      in if b then tr1 else wait_poll tok n (log (Sleep 1) tr1))"

text \<open>
  The second wait: up to \<open>n\<close> rounds of a look at the stop event, a look at the
  task just submitted, and a sleep of 0.1 s.
\<close>

fun wait_prev :: "job_env \<Rightarrow> token \<Rightarrow> nat \<Rightarrow> nat \<Rightarrow> trace \<Rightarrow> trace" where
  "wait_prev jenv tok i 0 tr = tr"
| "wait_prev jenv tok i (Suc n) tr =
     (let (b, tr1) = is_set tok tr
      in if b then tr1
         else let (d, tr2) = poll_done jenv i tr1
              in if d then tr2 else wait_prev jenv tok i n (log (Sleep 1) tr2))"

text \<open>
  The delay between two submissions.  \<open>list(futures.keys())[-1]\<close> is the future
  submitted last, that of item \<open>i\<close>.
\<close>

definition ramp_up_wait :: "job_env \<Rightarrow> token \<Rightarrow> nat \<Rightarrow> trace \<Rightarrow> trace" where
  "ramp_up_wait jenv tok i tr =
     (let tr1 = wait_poll tok 20 tr;
          (b, tr2) = is_set tok tr1
      in if b then tr2
         else let (d, tr3) = poll_done jenv i tr2
              in if d then tr3 else wait_prev jenv tok i 30 tr3)"

text \<open>
  The submission loop over \<open>enumerate(self.files)\<close>.  It returns \<open>was_stopped\<close> and the
  items submitted.
\<close>

fun submit_loop ::
  "batch_worker \<Rightarrow> job_env \<Rightarrow> token \<Rightarrow> (nat \<times> pystr) list \<Rightarrow> nat list \<Rightarrow> trace
     \<Rightarrow> (exn + bool \<times> nat list) \<times> trace" where
  "submit_loop w jenv tok [] futures tr = (Inr (False, futures), tr)"
| "submit_loop w jenv tok ((i, filepath) # rest) futures tr =
     (let (b, tr1) = is_set tok tr
      in if b
         then (case mark_stopped w [i ..< length (files w)] tr1 of
                 (Inl e, tr2) \<Rightarrow> (Inl e, tr2)
               | (Inr u, tr2) \<Rightarrow> (Inr (True, futures), tr2))
         else let tr2 = log (Submit i filepath) tr1;
                  tr3 = (if int i < int (length (files w)) - 1
                         then ramp_up_wait jenv tok i tr2 else tr2)
              in submit_loop w jenv tok rest (futures @ [i]) tr3)"

text \<open>
  The \<open>try\<close> block of \<open>run\<close>.  It yields the exception that left it (if any), the value
  of \<open>was_stopped\<close> and whether the executor was created.  A pool of size 0 is refused by
  \<open>ThreadPoolExecutor\<close>.  The loop that only computes display slots after a stop during
  submission is the first \<open>efold\<close>.
\<close>

definition run_try ::
  "batch_worker \<Rightarrow> job_env \<Rightarrow> token \<Rightarrow> trace \<Rightarrow> (exn option \<times> bool \<times> bool) \<times> trace" where
  "run_try w jenv tok tr =
     (case (if dir_exists jenv then (Inr (), tr)
            else (case makedirs_error jenv of
                    None \<Rightarrow> (Inr (), log (MakeDirs (output_dir w)) tr)
                  | Some e \<Rightarrow> (Inl e, tr))) of
        (Inl e, tr1) \<Rightarrow> ((Some e, False, False), tr1)
      | (Inr u, tr1) \<Rightarrow>
          if max_workers w = 0
          then ((Some (OtherException (asc ''max_workers must be greater than 0'')), False, False),
                tr1)
          else (case submit_loop w jenv tok (zip [0 ..< length (files w)] (files w)) [] tr1 of
                  (Inl e, tr2) \<Rightarrow> ((Some e, False, True), tr2)
                | (Inr (was_stopped, futures), tr2) \<Rightarrow>
                    (let (b, tr3) = is_set tok tr2
                     in if b
                        then (case efold (\<lambda>i u. ebind (row_index w i) (\<lambda>r. Inr ()))
                                     [0 ..< length (files w)] () of
                                Inl e \<Rightarrow> ((Some e, True, True), tr3)
                              | Inr u \<Rightarrow> ((None, True, True), log Shutdown tr3))
                        else let (pending, tr4) = drain jenv tok futures tr3;
                                 (b2, tr5) = is_set tok tr4
                             in if b2
                                then (case mark_stopped w pending tr5 of
                                        (Inl e, tr6) \<Rightarrow> ((Some e, True, True), tr6)
                                      | (Inr u, tr6) \<Rightarrow> ((None, True, True), tr6))
                                else ((None, was_stopped, True), tr5))))"

text \<open>
  \<open>run\<close>: the \<open>try\<close> block, the handler that prints the fatal error, and the
  \<open>finally\<close> block that shuts the executor down and emits \<open>stopped\<close> or \<open>finished\<close>.
\<close>

definition run :: "batch_worker \<Rightarrow> job_env \<Rightarrow> token \<Rightarrow> trace \<Rightarrow> trace" where
  "run w jenv sched tr =
     (let tok = worker_token w sched
      in case run_try w jenv tok tr of
           ((exc, was_stopped, executor), tr1) \<Rightarrow>
             (let tr2 = (case exc of None \<Rightarrow> tr1 | Some e \<Rightarrow> log PrintFatal tr1);
                  tr3 = (if executor then log Shutdown tr2 else tr2)
              in if was_stopped then log Stopped tr3
                 else let (b, tr4) = is_set tok tr3
                      in if b then log Stopped tr4 else log Finished tr4))"

text \<open>Vocabulary for the claims about \<open>run\<close>.\<close>

definition is_terminal :: "action \<Rightarrow> bool" where
  "is_terminal a = (a = Finished \<or> a = Stopped)"

definition is_submit :: "action \<Rightarrow> bool" where
  "is_submit a = (case a of Submit i fp \<Rightarrow> True | _ \<Rightarrow> False)"

definition is_signal :: "action \<Rightarrow> bool" where
  "is_signal a =
     (case a of
        StatusUpdate r s \<Rightarrow> True
      | ProgressUpdate r x y \<Rightarrow> True
      | ResultUpdate r m \<Rightarrow> True
      | _ \<Rightarrow> False)"

definition is_wait :: "action \<Rightarrow> bool" where
  "is_wait a = (case a of PollDone i d \<Rightarrow> True | Sleep n \<Rightarrow> True | _ \<Rightarrow> False)"

text \<open>What the submission loop and the rest of the \<open>try\<close> block may do besides looking
  at the stop event.\<close>

definition is_loop_action :: "action \<Rightarrow> bool" where
  "is_loop_action a = (is_wait a \<or> is_signal a \<or> is_submit a)"

definition is_run_action :: "action \<Rightarrow> bool" where
  "is_run_action a =
     (is_loop_action a \<or> a = Shutdown \<or> a = PrintFatal \<or> (\<exists>d. a = MakeDirs d))"

text \<open>
  The traces that grow from a trace by looks at the stop event and by actions of a
  given kind.
\<close>

inductive grows :: "(action \<Rightarrow> bool) \<Rightarrow> token \<Rightarrow> trace \<Rightarrow> trace \<Rightarrow> bool" where
  grows_refl: "grows P tok tr tr"
| grows_log: "grows P tok tr tr1 \<Longrightarrow> P a \<Longrightarrow> grows P tok tr (log a tr1)"
| grows_read: "grows P tok tr tr1 \<Longrightarrow> grows P tok tr (snd (is_set tok tr1))"

text \<open>The display slot as a number, and the signals that mark a list of items as stopped.\<close>

definition slot_of :: "batch_worker \<Rightarrow> nat \<Rightarrow> int" where
  "slot_of w j = (if j < length (row_indices w) then row_indices w ! j else int j)"

definition stop_marks :: "batch_worker \<Rightarrow> nat list \<Rightarrow> trace" where
  "stop_marks w js =
     concat (map (\<lambda>j. [StatusUpdate (slot_of w j) st_terminated,
                          ResultUpdate (slot_of w j) msg_user_stopped]) js)"

text \<open>
  A job can start when its output directory exists or can be created and the pool has at
  least one thread.  Before the submission loop the run has then at most created the
  directory.  The submissions of a whole job are those of \<open>enumerate(self.files)\<close>.
\<close>

definition can_start :: "batch_worker \<Rightarrow> job_env \<Rightarrow> bool" where
  "can_start w jenv = ((dir_exists jenv \<or> makedirs_error jenv = None) \<and> 0 < max_workers w)"

definition prelude :: "batch_worker \<Rightarrow> job_env \<Rightarrow> trace" where
  "prelude w jenv = (if dir_exists jenv then [] else [MakeDirs (output_dir w)])"

definition submissions :: "batch_worker \<Rightarrow> trace" where
  "submissions w = map (\<lambda>(i, fp). Submit i fp) (zip [0 ..< length (files w)] (files w))"

text \<open>The statuses of a terminal per-item update.\<close>

definition terminal_statuses :: "pystr list" where
  "terminal_statuses = [st_success, st_no_content, st_failed, st_error]"

text \<open>
  The signals of a trace that were emitted at a time when the stop event was set, and
  the part of a trace from the first look that saw the event set.
\<close>

definition emitted_after_stop :: "token \<Rightarrow> trace \<Rightarrow> trace" where
  "emitted_after_stop tok tr =
     map (\<lambda>k. tr ! k) (filter (\<lambda>k. tok_set_at tok k \<and> is_signal (tr ! k)) [0 ..< length tr])"

definition after_seen :: "trace \<Rightarrow> trace" where
  "after_seen tr = dropWhile (\<lambda>a. a \<noteq> ReadStop True) tr"

text \<open>From the first look that saw the event set, the trace holds nothing but such looks.\<close>

definition quiet_after_seen :: "trace \<Rightarrow> bool" where
  "quiet_after_seen tr = list_all (\<lambda>a. a = ReadStop True) (after_seen tr)"

subsection \<open>Concrete inputs for a run\<close>

text \<open>A job whose output directory cannot be created, and one whose directory exists.\<close>

definition jenv_no_dir :: job_env where
  "jenv_no_dir = \<lparr> dir_exists = False, makedirs_error = Some (OSError (asc ''denied'')),
                   done_at = (\<lambda>i. 0) \<rparr>"

definition jenv_ready :: job_env where
  "jenv_ready = \<lparr> dir_exists = True, makedirs_error = None, done_at = (\<lambda>i. 0) \<rparr>"

definition tenv_unreadable :: task_env where
  "tenv_unreadable = \<lparr> file_read = Inl (OSError (asc ''No such file'')), task_net = net_ok,
                       task_xenv = xenv_ok \<rparr>"

definition tenv_ok :: task_env where
  "tenv_ok = \<lparr> file_read = Inr [137, 80, 78, 71], task_net = net_ok, task_xenv = xenv_ok \<rparr>"

section \<open>Display slots\<close>

lemma row_index_in_range:
  "i < length (row_indices w) \<Longrightarrow> row_index w i = Inr (row_indices w ! i)"
  by (simp add: row_index_def py_index_def)

lemma row_index_out_of_range:
  "\<not> i < length (row_indices w) \<Longrightarrow> row_index w i = Inr (int i)"
  by (simp add: row_index_def)

text \<open>
  Claim C10.  For every worker and every internal index \<open>i\<close> the display slot is defined
  (the list access never raises): it is \<open>row_indices[i]\<close> when \<open>row_indices\<close> was given
  and \<open>i < len(row_indices)\<close>, and \<open>i\<close> otherwise; with no \<open>row_indices\<close>, or an empty
  one, the mapping is the identity.
\<close>

theorem display_slot_total:
  "row_index (BatchWorker_init md fs mo od ef mw ri) i =
     Inr (case ri of
            None \<Rightarrow> int i
          | Some r \<Rightarrow> if i < length r then r ! i else int i)"
proof (cases ri)
  case None
  then show ?thesis
    by (simp add: row_index_def py_index_def BatchWorker_init_def)
next
  case (Some r)
  then show ?thesis
    by (cases "r = []") (simp_all add: row_index_def py_index_def BatchWorker_init_def)
qed

theorem display_slot_total_witness:
  "row_index (BatchWorker_init [] [asc ''a.png'', asc ''b.png'', asc ''c.png''] None
                (asc ''out'') (asc ''txt'') 5 (Some [7, 4])) 1 = Inr 4
   \<and> row_index (BatchWorker_init [] [asc ''a.png'', asc ''b.png'', asc ''c.png''] None
                (asc ''out'') (asc ''txt'') 5 (Some [7, 4])) 2 = Inr 2"
  using display_slot_total [of "[]" "[asc ''a.png'', asc ''b.png'', asc ''c.png'']" None
          "asc ''out''" "asc ''txt''" 5 "Some [7, 4]" 1]
        display_slot_total [of "[]" "[asc ''a.png'', asc ''b.png'', asc ''c.png'']" None
          "asc ''out''" "asc ''txt''" 5 "Some [7, 4]" 2]
  by simp

section \<open>Stopping\<close>

text \<open>
  Claim C8.  Calling \<open>stop()\<close> on the coordinator twice leaves the same state as calling
  it once; a held worker's token is set by it and a set token stays set; with no held
  worker \<open>stop()\<close> changes nothing.
\<close>

theorem stop_idempotent:
  "BatchProcessor_stop (BatchProcessor_stop p) = BatchProcessor_stop p
   \<and> BatchWorker_stop (BatchWorker_stop w) = BatchWorker_stop w
   \<and> stop_event (BatchWorker_stop w)
   \<and> (current_worker p = Some w \<longrightarrow>
        current_worker (BatchProcessor_stop p) = Some (w\<lparr>stop_event := True\<rparr>))
   \<and> (current_worker p = None \<longrightarrow> BatchProcessor_stop p = p)"
  by (cases "current_worker p") (simp_all add: BatchProcessor_stop_def BatchWorker_stop_def)

theorem stop_idempotent_witness:
  "current_worker BatchProcessor_init = None
   \<and> BatchProcessor_stop BatchProcessor_init = BatchProcessor_init
   \<and> current_worker (BatchProcessor_process (asc ''output'') BatchProcessor_init
         (asc ''images'') [asc ''a.png''] None None None 5 None)
       = Some (BatchWorker_init (asc ''images'') [asc ''a.png''] None (asc ''output'')
                 (asc ''TXT'') 5 None)
   \<and> current_worker (BatchProcessor_stop (BatchProcessor_process (asc ''output'')
         BatchProcessor_init (asc ''images'') [asc ''a.png''] None None None 5 None))
       = Some ((BatchWorker_init (asc ''images'') [asc ''a.png''] None (asc ''output'')
                 (asc ''TXT'') 5 None) \<lparr>stop_event := True\<rparr>)
   \<and> BatchProcessor_stop (BatchProcessor_stop (BatchProcessor_process (asc ''output'')
         BatchProcessor_init (asc ''images'') [asc ''a.png''] None None None 5 None))
       = BatchProcessor_stop (BatchProcessor_process (asc ''output'')
         BatchProcessor_init (asc ''images'') [asc ''a.png''] None None None 5 None)"
  using stop_idempotent [of BatchProcessor_init
          "BatchWorker_init (asc ''images'') [asc ''a.png''] None (asc ''output'')
             (asc ''TXT'') 5 None"]
        stop_idempotent [of "BatchProcessor_process (asc ''output'') BatchProcessor_init
             (asc ''images'') [asc ''a.png''] None None None 5 None"
          "BatchWorker_init (asc ''images'') [asc ''a.png''] None (asc ''output'')
             (asc ''TXT'') 5 None"]
  by (simp add: BatchProcessor_init_def BatchProcessor_process_def)

section \<open>The OCR client: retries, responses, cancellation\<close>

lemma is_net_action_simps [simp]:
  "is_net_action (HttpPost k ft)" "is_net_action (Sleep d)" "\<not> is_net_action (ReadStop b)"
  by (simp_all add: is_net_action_def)

lemma net_actions_simps [simp]:
  "net_actions [] = []"
  "net_actions (a # xs) = (if is_net_action a then a # net_actions xs else net_actions xs)"
  "net_actions (xs @ ys) = net_actions xs @ net_actions ys"
  by (simp_all add: net_actions_def)

lemma check_stop_cases:
  "check_stop ev tr = (b, tr') \<Longrightarrow> tr' = tr \<or> tr' = tr @ [ReadStop b]"
  by (auto simp: check_stop_def is_set_def log_def Let_def split: option.splits)

lemma check_stop_appends:
  "check_stop ev tr = (b, tr') \<Longrightarrow> \<exists>rs. tr' = tr @ rs \<and> net_actions rs = []"
  by (drule check_stop_cases) auto

lemma check_stop_not_cancelled:
  "not_cancelled ev \<Longrightarrow> fst (check_stop ev tr) = False"
  by (auto simp: not_cancelled_def check_stop_def is_set_def tok_set_at_def Let_def
        split: option.splits)

lemma attempt_body_trace:
  assumes "attempt_body env net ft ev k tr = (res, tr')"
  shows "\<exists>new. tr' = tr @ new \<and>
           (net_actions new = [HttpPost k ft] \<or> (net_actions new = [] \<and> res = Inr stopped_response))"
proof -
  obtain b1 tr1 where c1: "check_stop ev tr = (b1, tr1)" by (cases "check_stop ev tr")
  then obtain rs1 where r1: "tr1 = tr @ rs1" "net_actions rs1 = []"
    using check_stop_appends by blast
  show ?thesis
  proof (cases b1)
    case True
    with assms c1 r1 show ?thesis by (auto simp: attempt_body_def)
  next
    case False
    obtain b2 tr3 where c2: "check_stop ev (log (HttpPost k ft) tr1) = (b2, tr3)"
      by (cases "check_stop ev (log (HttpPost k ft) tr1)")
    then obtain rs2 where r2: "tr3 = log (HttpPost k ft) tr1 @ rs2" "net_actions rs2 = []"
      using check_stop_appends by blast
    have "tr' = log (HttpPost k ft) tr1 \<or> tr' = tr3"
      using assms c1 c2 False
      by (auto simp: attempt_body_def Let_def split: sum.splits if_splits)
    then show ?thesis
      using r1 r2 by (auto simp: log_def)
  qed
qed


lemma ocr_attempts_pattern:
  "\<exists>new. snd (ocr_attempts env net ft ev atts le tr) = tr @ new
          \<and> prefix (net_actions new) (retry_pattern ft atts)"
proof (induction atts arbitrary: le tr)
  case Nil
  then show ?case by simp
next
  case (Cons a atts)
  obtain res tr1 where ab: "attempt_body env net ft ev a tr = (res, tr1)"
    by (cases "attempt_body env net ft ev a tr")
  from attempt_body_trace [OF ab] obtain n1 where
    n1: "tr1 = tr @ n1"
        "net_actions n1 = [HttpPost a ft] \<or> (net_actions n1 = [] \<and> res = Inr stopped_response)"
    by blast
  show ?case
  proof (cases res)
    case (Inr r)
    with ab n1 show ?thesis by auto
  next
    case (Inl e)
    with n1 have p1: "net_actions n1 = [HttpPost a ft]" by simp
    obtain b tr2 where cs: "check_stop ev tr1 = (b, tr2)" by (cases "check_stop ev tr1")
    then obtain rs where rs: "tr2 = tr1 @ rs" "net_actions rs = []"
      using check_stop_appends by blast
    show ?thesis
    proof (cases e)
      case Timeout
      from Cons.IH [of "Some msg_timeout" "if a < max_retries then log (Sleep 10) tr1 else tr1"]
      obtain n2 where n2: "snd (ocr_attempts env net ft ev atts (Some msg_timeout)
             (if a < max_retries then log (Sleep 10) tr1 else tr1))
           = (if a < max_retries then log (Sleep 10) tr1 else tr1) @ n2"
         "prefix (net_actions n2) (retry_pattern ft atts)" by blast
      with ab Inl Timeout n1 p1 show ?thesis
        by (auto simp: log_def)
    next
      case (ConnectionError m)
      from Cons.IH [of "Some (msg_connection @ take 80 m)"
                       "if a < max_retries then log (Sleep 10) tr2 else tr2"]
      obtain n2 where n2: "snd (ocr_attempts env net ft ev atts (Some (msg_connection @ take 80 m))
             (if a < max_retries then log (Sleep 10) tr2 else tr2))
           = (if a < max_retries then log (Sleep 10) tr2 else tr2) @ n2"
         "prefix (net_actions n2) (retry_pattern ft atts)" by blast
      with ab Inl ConnectionError n1 p1 cs rs show ?thesis
        by (auto simp: log_def)
    qed (use ab Inl n1 p1 cs rs in \<open>auto simp: log_def\<close>)
  qed
qed


lemma check_stop_nc: "not_cancelled ev \<Longrightarrow> check_stop ev tr = (False, tr @ reads ev)"
  by (auto simp: not_cancelled_def check_stop_def is_set_def tok_set_at_def Let_def log_def
        reads_def split: option.splits)

lemma net_actions_reads [simp]: "net_actions (reads ev) = []"
  by (simp add: reads_def split: option.splits)

lemma attempt_body_nc:
  "not_cancelled ev \<Longrightarrow>
   attempt_body env net ft ev k tr =
     (case net k of
        Inl e \<Rightarrow> (Inl e, tr @ reads ev @ [HttpPost k ft])
      | Inr resp \<Rightarrow> (handle_response env resp, tr @ reads ev @ [HttpPost k ft] @ reads ev))"
  by (simp add: attempt_body_def check_stop_nc log_def split: sum.splits)

lemma transient_cases:
  "transient out \<Longrightarrow> out = Inl Timeout \<or> (\<exists>m. out = Inl (ConnectionError m))"
  by (auto simp: transient_def split: sum.splits exn.splits)

lemma attempts_step_transient:
  assumes "not_cancelled ev" "transient (net a)"
  shows "\<exists>le' mid. ocr_attempts env net ft ev (a # rest) le tr
                     = ocr_attempts env net ft ev rest le' (tr @ mid)
           \<and> net_actions mid = HttpPost a ft # (if a < max_retries then [Sleep 10] else [])"
proof -
  from transient_cases [OF assms(2)] show ?thesis
  proof
    assume t: "net a = Inl Timeout"
    show ?thesis
      apply (rule exI [of _ "Some msg_timeout"])
      apply (rule exI [of _ "reads ev @ [HttpPost a ft] @ (if a < max_retries then [Sleep 10] else [])"])
      using assms(1) t by (simp add: attempt_body_nc log_def)
  next
    assume "\<exists>m. net a = Inl (ConnectionError m)"
    then obtain m where t: "net a = Inl (ConnectionError m)" by blast
    show ?thesis
      apply (rule exI [of _ "Some (msg_connection @ take 80 m)"])
      apply (rule exI [of _ "reads ev @ [HttpPost a ft] @ reads ev @ (if a < max_retries then [Sleep 10] else [])"])
      using assms(1) t by (simp add: attempt_body_nc check_stop_nc log_def)
  qed
qed

lemma attempts_step_answer:
  assumes "not_cancelled ev" "net a = Inr resp" "handle_response env resp = Inr r"
  shows "\<exists>mid. ocr_attempts env net ft ev (a # rest) le tr = (Inr r, tr @ mid)
           \<and> net_actions mid = [HttpPost a ft]"
  apply (rule exI [of _ "reads ev @ [HttpPost a ft] @ reads ev"])
  using assms by (simp add: attempt_body_nc)


lemma shape_error: "error_shaped (ErrorResp m raw)"
  by (simp add: error_shaped_def to_dict_def has_key_def)

lemma shape_error_not_result: "\<not> result_shaped (ErrorResp m raw)"
  by (simp add: result_shaped_def to_dict_def has_key_def)

lemma shape_stopped: "error_shaped stopped_response" "\<not> result_shaped stopped_response"
  by (simp_all add: stopped_response_def shape_error shape_error_not_result)






lemma attempt_body_result:
  "attempt_body env net ft ev k tr = (Inr r, tr') \<Longrightarrow> result_shaped r \<Longrightarrow>
     \<exists>resp. net k = Inr resp \<and> handle_response env resp = Inr r"
  by (auto simp: attempt_body_def Let_def shape_stopped
        split: prod.splits sum.splits if_splits)

lemma ocr_attempts_result:
  "\<exists>r. fst (ocr_attempts env net ft ev atts le tr) = Inr r
       \<and> (result_shaped r \<longrightarrow>
            (\<exists>k resp. k \<in> set atts \<and> net k = Inr resp \<and> handle_response env resp = Inr r))"
proof (induction atts arbitrary: le tr)
  case Nil
  then show ?case by (simp add: shape_error_not_result)
next
  case (Cons a atts)
  obtain res tr1 where ab: "attempt_body env net ft ev a tr = (res, tr1)"
    by (cases "attempt_body env net ft ev a tr")
  have step: "\<exists>r. fst (ocr_attempts env net ft ev (a # atts) le tr) = Inr r
       \<and> (result_shaped r \<longrightarrow>
            (\<exists>k resp. k \<in> set (a # atts) \<and> net k = Inr resp \<and> handle_response env resp = Inr r))"
    if "fst (ocr_attempts env net ft ev (a # atts) le tr)
          = fst (ocr_attempts env net ft ev atts le' tr')" for le' tr'
  proof -
    from Cons.IH [of le' tr'] obtain r where
      r: "fst (ocr_attempts env net ft ev atts le' tr') = Inr r"
         "result_shaped r \<longrightarrow>
            (\<exists>k resp. k \<in> set atts \<and> net k = Inr resp \<and> handle_response env resp = Inr r)"
      by blast
    have "result_shaped r \<longrightarrow>
            (\<exists>k resp. k \<in> set (a # atts) \<and> net k = Inr resp \<and> handle_response env resp = Inr r)"
      using r(2) by auto
    with r(1) that show ?thesis by metis
  qed
  have direct: "\<exists>r. fst (ocr_attempts env net ft ev (a # atts) le tr) = Inr r
       \<and> (result_shaped r \<longrightarrow>
            (\<exists>k resp. k \<in> set (a # atts) \<and> net k = Inr resp \<and> handle_response env resp = Inr r))"
    if "fst (ocr_attempts env net ft ev (a # atts) le tr) = Inr (ErrorResp m raw)" for m raw
    using that by (simp add: shape_error_not_result)
  show ?case
  proof (cases res)
    case (Inr r)
    have "fst (ocr_attempts env net ft ev (a # atts) le tr) = Inr r"
      using ab Inr by simp
    moreover have "result_shaped r \<longrightarrow>
            (\<exists>k resp. k \<in> set (a # atts) \<and> net k = Inr resp \<and> handle_response env resp = Inr r)"
      using attempt_body_result [of env net ft ev a tr r tr1] ab Inr by auto
    ultimately show ?thesis by blast
  next
    case (Inl e)
    obtain b tr2 where cs: "check_stop ev tr1 = (b, tr2)" by (cases "check_stop ev tr1")
    show ?thesis
    proof (cases e)
      case Timeout
      show ?thesis
        by (rule step [of "Some msg_timeout"
                          "if a < max_retries then log (Sleep 10) tr1 else tr1"])
           (use ab Inl Timeout in simp)
    next
      case (ConnectionError m)
      show ?thesis
      proof (cases b)
        case True
        show ?thesis
          by (rule direct [of msg_task_stopped None])
             (use ab Inl ConnectionError cs True in \<open>simp add: stopped_response_def\<close>)
      next
        case False
        show ?thesis
          by (rule step [of "Some (msg_connection @ take 80 m)"
                            "if a < max_retries then log (Sleep 10) tr2 else tr2"])
             (use ab Inl ConnectionError cs False in simp)
      qed
    next
      case IndexError
      show ?thesis
        by (cases b; rule direct)
           (use ab Inl IndexError cs in \<open>simp_all add: stopped_response_def\<close>)
    next
      case (KeyError x)
      show ?thesis
        by (cases b; rule direct)
           (use ab Inl KeyError cs in \<open>simp_all add: stopped_response_def\<close>)
    next
      case TypeError
      show ?thesis
        by (cases b; rule direct)
           (use ab Inl TypeError cs in \<open>simp_all add: stopped_response_def\<close>)
    next
      case AttributeError
      show ?thesis
        by (cases b; rule direct)
           (use ab Inl AttributeError cs in \<open>simp_all add: stopped_response_def\<close>)
    next
      case ImportError
      show ?thesis
        by (cases b; rule direct)
           (use ab Inl ImportError cs in \<open>simp_all add: stopped_response_def\<close>)
    next
      case (OSError x)
      show ?thesis
        by (cases b; rule direct)
           (use ab Inl OSError cs in \<open>simp_all add: stopped_response_def\<close>)
    next
      case (OtherException x)
      show ?thesis
        by (cases b; rule direct)
           (use ab Inl OtherException cs in \<open>simp_all add: stopped_response_def\<close>)
    qed
  qed
qed

lemma attempts_list: "[0 ..< max_retries + 1] = [0, 1, 2]"
  by (simp add: max_retries_def upt_rec)




lemma ocr_file_nc:
  "not_cancelled ev \<Longrightarrow> ocr_configured cfg mo \<Longrightarrow>
   ocr_file env cfg net fd ft mo ev tr
     = ocr_attempts env net ft ev [0 ..< max_retries + 1] None (tr @ reads ev)"
  by (simp add: ocr_file_def check_stop_nc ocr_configured_def Let_def del: upt_Suc)

lemma retry_pattern_append [simp]:
  "retry_pattern ft (xs @ ys) = retry_pattern ft xs @ retry_pattern ft ys"
  by (induction xs) simp_all

lemma run_to_answer:
  assumes nc: "not_cancelled ev"
  shows "(\<forall>i<k. transient (net (a + i))) \<Longrightarrow> net (a + k) = Inr resp \<Longrightarrow>
         handle_response env resp = Inr r \<Longrightarrow>
         \<exists>mid. ocr_attempts env net ft ev ([a ..< a + k] @ (a + k) # rest) le tr = (Inr r, tr @ mid)
           \<and> net_actions mid = retry_pattern ft [a ..< a + k] @ [HttpPost (a + k) ft]"
proof (induction k arbitrary: a le tr)
  case 0
  from attempts_step_answer [where ev = ev and net = net and a = a and resp = resp and env = env
          and r = r and ft = ft and rest = rest and le = le and tr = tr] nc 0
  show ?case by auto
next
  case (Suc k)
  have l: "[a ..< a + Suc k] = a # [Suc a ..< Suc a + k]"
    by (simp add: upt_rec)
  from Suc.prems(1) have t0: "transient (net a)" by (metis add.right_neutral zero_less_Suc)
  from Suc.prems(1) have tn: "\<forall>i<k. transient (net (Suc a + i))"
    by (metis Suc_less_eq add_Suc_right add_Suc)
  from attempts_step_transient [where ev = ev and net = net and a = a and env = env and ft = ft
         and rest = "[Suc a ..< Suc a + k] @ (Suc a + k) # rest" and le = le and tr = tr] nc t0
  obtain le' mid0 where s0:
    "ocr_attempts env net ft ev (a # [Suc a ..< Suc a + k] @ (Suc a + k) # rest) le tr
       = ocr_attempts env net ft ev ([Suc a ..< Suc a + k] @ (Suc a + k) # rest) le' (tr @ mid0)"
    "net_actions mid0 = HttpPost a ft # (if a < max_retries then [Sleep 10] else [])"
    by blast
  from Suc.IH [OF tn, of le' "tr @ mid0"] Suc.prems
  obtain mid1 where s1:
    "ocr_attempts env net ft ev ([Suc a ..< Suc a + k] @ (Suc a + k) # rest) le' (tr @ mid0)
       = (Inr r, (tr @ mid0) @ mid1)"
    "net_actions mid1 = retry_pattern ft [Suc a ..< Suc a + k] @ [HttpPost (Suc a + k) ft]"
    by auto
  have e1: "ocr_attempts env net ft ev ([a ..< a + Suc k] @ (a + Suc k) # rest) le tr
              = (Inr r, tr @ (mid0 @ mid1))"
    unfolding l using s0(1) s1(1) by (simp only: append_Cons append_assoc add_Suc add_Suc_right)
  have e2: "net_actions (mid0 @ mid1) = retry_pattern ft [a ..< a + Suc k] @ [HttpPost (a + Suc k) ft]"
    unfolding l using s0(2) s1(2) by simp
  from e1 e2 show ?case by blast
qed

lemma pattern_upto:
  "k \<le> 2 \<Longrightarrow> retry_pattern ft [0 ..< k] @ [HttpPost k ft]
      = take (2 * k + 1) [HttpPost 0 ft, Sleep 10, HttpPost 1 ft, Sleep 10, HttpPost 2 ft]"
proof -
  assume "k \<le> 2"
  then consider "k = 0" | "k = 1" | "k = 2" by linarith
  then show ?thesis
    by cases (simp_all add: max_retries_def upt_rec)
qed

lemma attempts_split: "k \<le> 2 \<Longrightarrow> [0 ..< max_retries + 1] = [0 ..< 0 + k] @ (0 + k) # [Suc k ..< 3]"
proof -
  assume "k \<le> 2"
  then consider "k = 0" | "k = 1" | "k = 2" by linarith
  then show ?thesis
    by cases (simp_all add: max_retries_def upt_rec)
qed

lemma ocr_file_answer:
  assumes "not_cancelled ev" "ocr_configured cfg mo" "k \<le> 2" "\<forall>i<k. transient (net i)"
    "net k = Inr resp" "handle_response env resp = Inr r"
  shows "\<exists>mid. ocr_file env cfg net fd ft mo ev tr = (Inr r, tr @ mid)
           \<and> net_actions mid
               = take (2 * k + 1) [HttpPost 0 ft, Sleep 10, HttpPost 1 ft, Sleep 10, HttpPost 2 ft]"
proof -
  from run_to_answer [where ev = ev and k = k and net = net and a = 0 and resp = resp
      and env = env and r = r and ft = ft and rest = "[Suc k ..< 3]" and le = None
      and tr = "tr @ reads ev"] assms
  obtain mid where m:
    "ocr_attempts env net ft ev ([0 ..< 0 + k] @ (0 + k) # [Suc k ..< 3]) None (tr @ reads ev)
       = (Inr r, (tr @ reads ev) @ mid)"
    "net_actions mid = retry_pattern ft [0 ..< 0 + k] @ [HttpPost (0 + k) ft]"
    by auto
  have "ocr_file env cfg net fd ft mo ev tr = (Inr r, tr @ (reads ev @ mid))"
    using m(1) assms(1,2,3) by (simp only: ocr_file_nc attempts_split append_assoc)
  moreover have "net_actions (reads ev @ mid)
       = take (2 * k + 1) [HttpPost 0 ft, Sleep 10, HttpPost 1 ft, Sleep 10, HttpPost 2 ft]"
    using m(2) pattern_upto [OF assms(3), of ft] by simp
  ultimately show ?thesis by blast
qed


lemma ocr_file_pattern:
  "\<exists>mid. snd (ocr_file env cfg net fd ft mo ev tr) = tr @ mid
         \<and> prefix (net_actions mid)
              [HttpPost 0 ft, Sleep 10, HttpPost 1 ft, Sleep 10, HttpPost 2 ft]"
proof -
  obtain b tr1 where cs: "check_stop ev tr = (b, tr1)" by (cases "check_stop ev tr")
  then obtain rs where rs: "tr1 = tr @ rs" "net_actions rs = []"
    using check_stop_appends by blast
  define atts where "atts = [0 ..< max_retries + 1]"
  have pat: "retry_pattern ft atts
               = [HttpPost 0 ft, Sleep 10, HttpPost 1 ft, Sleep 10, HttpPost 2 ft]"
    by (simp add: atts_def max_retries_def upt_rec)
  from ocr_attempts_pattern [of env net ft ev atts None tr1] obtain new where
    new: "snd (ocr_attempts env net ft ev atts None tr1) = tr1 @ new"
         "prefix (net_actions new) (retry_pattern ft atts)" by blast
  have "snd (ocr_file env cfg net fd ft mo ev tr) = tr1
        \<or> snd (ocr_file env cfg net fd ft mo ev tr) = tr1 @ new"
    using new(1) by (auto simp: ocr_file_def cs Let_def atts_def simp del: upt_Suc)
  then show ?thesis
  proof
    assume "snd (ocr_file env cfg net fd ft mo ev tr) = tr1"
    with rs show ?thesis by simp
  next
    assume "snd (ocr_file env cfg net fd ft mo ev tr) = tr1 @ new"
    with rs new(2) pat show ?thesis by simp
  qed
qed

lemma handle_response_status:
  "status_code resp \<noteq> 200 \<Longrightarrow>
   handle_response env resp
     = Inr (ErrorResp (asc ''HTTP '' @ py_repr env (JInt (status_code resp)))
                      (Some (take 500 (body_text resp))))"
  by (simp add: handle_response_def)

lemma handle_response_error_code:
  "status_code resp = 200 \<Longrightarrow> json_body resp = Inr (JObj kvs) \<Longrightarrow>
   map_of kvs (asc ''errorCode'') = Some c \<Longrightarrow> py_ne_zero c \<Longrightarrow>
   handle_response env resp
     = Inr (ErrorResp (msg_api_error
                        @ py_str env (case map_of kvs (asc ''errorMsg'') of
                                        None \<Rightarrow> JNull | Some m \<Rightarrow> m))
                      (Some (take 500 (py_str env (JObj kvs)))))"
  by (simp add: handle_response_def after_json_def ebind_def py_in_def py_getitem_def
        py_get_def)

text \<open>
  Claim C5, as amended: when the stop event is not set (or none is given) and the model
  is configured.  The requests of a call always form a prefix of
  request, 1 s sleep, request, 1 s sleep, request.  If the attempts before attempt
  \<open>k \<le> 2\<close> fail with a timeout or a connection error and attempt \<open>k\<close> is answered,
  the call returns what that answer gives, after exactly \<open>k\<close> retries and with no
  further request: the parsed result for a good answer, and for a non-200 status or an
  embedded non-zero error code the error response with the truncated raw body.
\<close>

theorem ocr_retry_contract:
  "\<exists>mid. snd (ocr_file env cfg net fd ft mo ev tr) = tr @ mid
     \<and> prefix (net_actions mid)
          [HttpPost 0 ft, Sleep 10, HttpPost 1 ft, Sleep 10, HttpPost 2 ft]
     \<and> (not_cancelled ev \<and> ocr_configured cfg mo \<and> k \<le> max_retries
          \<and> (\<forall>i<k. transient (net i)) \<and> net k = Inr resp
        \<longrightarrow>
          (\<forall>r. handle_response env resp = Inr r \<longrightarrow>
                 fst (ocr_file env cfg net fd ft mo ev tr) = Inr r
               \<and> net_actions mid
                    = take (2 * k + 1)
                        [HttpPost 0 ft, Sleep 10, HttpPost 1 ft, Sleep 10, HttpPost 2 ft])
        \<and> (status_code resp \<noteq> 200 \<longrightarrow>
              fst (ocr_file env cfg net fd ft mo ev tr)
                = Inr (ErrorResp (asc ''HTTP '' @ py_repr env (JInt (status_code resp)))
                                 (Some (take 500 (body_text resp)))))
        \<and> (\<forall>kvs c. status_code resp = 200 \<and> json_body resp = Inr (JObj kvs)
                  \<and> map_of kvs (asc ''errorCode'') = Some c \<and> py_ne_zero c \<longrightarrow>
              fst (ocr_file env cfg net fd ft mo ev tr)
                = Inr (ErrorResp (msg_api_error
                                   @ py_str env (case map_of kvs (asc ''errorMsg'') of
                                                   None \<Rightarrow> JNull | Some m \<Rightarrow> m))
                                 (Some (take 500 (py_str env (JObj kvs)))))))"
proof -
  from ocr_file_pattern [of env cfg net fd ft mo ev tr] obtain mid where
    mid: "snd (ocr_file env cfg net fd ft mo ev tr) = tr @ mid"
         "prefix (net_actions mid)
            [HttpPost 0 ft, Sleep 10, HttpPost 1 ft, Sleep 10, HttpPost 2 ft]" by blast
  have main: "fst (ocr_file env cfg net fd ft mo ev tr) = Inr r
               \<and> net_actions mid
                    = take (2 * k + 1)
                        [HttpPost 0 ft, Sleep 10, HttpPost 1 ft, Sleep 10, HttpPost 2 ft]"
    if h: "not_cancelled ev" "ocr_configured cfg mo" "k \<le> max_retries"
          "\<forall>i<k. transient (net i)" "net k = Inr resp"
      and r: "handle_response env resp = Inr r" for r
  proof -
    from h(3) have k2: "k \<le> 2" by (simp add: max_retries_def)
    from ocr_file_answer [OF h(1) h(2) k2 h(4) h(5) r, of fd ft tr] obtain mid' where
      m': "ocr_file env cfg net fd ft mo ev tr = (Inr r, tr @ mid')"
          "net_actions mid'
             = take (2 * k + 1)
                 [HttpPost 0 ft, Sleep 10, HttpPost 1 ft, Sleep 10, HttpPost 2 ft]" by blast
    from m'(1) mid(1) have "mid' = mid" by simp
    with m' show ?thesis by simp
  qed
  have inner: "not_cancelled ev \<and> ocr_configured cfg mo \<and> k \<le> max_retries
          \<and> (\<forall>i<k. transient (net i)) \<and> net k = Inr resp
        \<longrightarrow>
          (\<forall>r. handle_response env resp = Inr r \<longrightarrow>
                 fst (ocr_file env cfg net fd ft mo ev tr) = Inr r
               \<and> net_actions mid
                    = take (2 * k + 1)
                        [HttpPost 0 ft, Sleep 10, HttpPost 1 ft, Sleep 10, HttpPost 2 ft])
        \<and> (status_code resp \<noteq> 200 \<longrightarrow>
              fst (ocr_file env cfg net fd ft mo ev tr)
                = Inr (ErrorResp (asc ''HTTP '' @ py_repr env (JInt (status_code resp)))
                                 (Some (take 500 (body_text resp)))))
        \<and> (\<forall>kvs c. status_code resp = 200 \<and> json_body resp = Inr (JObj kvs)
                  \<and> map_of kvs (asc ''errorCode'') = Some c \<and> py_ne_zero c \<longrightarrow>
              fst (ocr_file env cfg net fd ft mo ev tr)
                = Inr (ErrorResp (msg_api_error
                                   @ py_str env (case map_of kvs (asc ''errorMsg'') of
                                                   None \<Rightarrow> JNull | Some m \<Rightarrow> m))
                                 (Some (take 500 (py_str env (JObj kvs))))))"
  proof
    assume H: "not_cancelled ev \<and> ocr_configured cfg mo \<and> k \<le> max_retries
          \<and> (\<forall>i<k. transient (net i)) \<and> net k = Inr resp"
    have a: "\<forall>r. handle_response env resp = Inr r \<longrightarrow>
                 fst (ocr_file env cfg net fd ft mo ev tr) = Inr r
               \<and> net_actions mid
                    = take (2 * k + 1)
                        [HttpPost 0 ft, Sleep 10, HttpPost 1 ft, Sleep 10, HttpPost 2 ft]"
      using main H by blast
    have b: "status_code resp \<noteq> 200 \<longrightarrow>
              fst (ocr_file env cfg net fd ft mo ev tr)
                = Inr (ErrorResp (asc ''HTTP '' @ py_repr env (JInt (status_code resp)))
                                 (Some (take 500 (body_text resp))))"
      using a handle_response_status [of resp env] by blast
    have c: "\<forall>kvs c. status_code resp = 200 \<and> json_body resp = Inr (JObj kvs)
                  \<and> map_of kvs (asc ''errorCode'') = Some c \<and> py_ne_zero c \<longrightarrow>
              fst (ocr_file env cfg net fd ft mo ev tr)
                = Inr (ErrorResp (msg_api_error
                                   @ py_str env (case map_of kvs (asc ''errorMsg'') of
                                                   None \<Rightarrow> JNull | Some m \<Rightarrow> m))
                                 (Some (take 500 (py_str env (JObj kvs)))))"
      using a handle_response_error_code [of resp _ _ env] by blast
    from a b c show "(\<forall>r. handle_response env resp = Inr r \<longrightarrow>
                 fst (ocr_file env cfg net fd ft mo ev tr) = Inr r
               \<and> net_actions mid
                    = take (2 * k + 1)
                        [HttpPost 0 ft, Sleep 10, HttpPost 1 ft, Sleep 10, HttpPost 2 ft])
        \<and> (status_code resp \<noteq> 200 \<longrightarrow>
              fst (ocr_file env cfg net fd ft mo ev tr)
                = Inr (ErrorResp (asc ''HTTP '' @ py_repr env (JInt (status_code resp)))
                                 (Some (take 500 (body_text resp)))))
        \<and> (\<forall>kvs c. status_code resp = 200 \<and> json_body resp = Inr (JObj kvs)
                  \<and> map_of kvs (asc ''errorCode'') = Some c \<and> py_ne_zero c \<longrightarrow>
              fst (ocr_file env cfg net fd ft mo ev tr)
                = Inr (ErrorResp (msg_api_error
                                   @ py_str env (case map_of kvs (asc ''errorMsg'') of
                                                   None \<Rightarrow> JNull | Some m \<Rightarrow> m))
                                 (Some (take 500 (py_str env (JObj kvs))))))"
      by (intro conjI)
  qed
  from mid(1) mid(2) inner show ?thesis
    by (intro exI [of _ mid] conjI)
qed

subsection \<open>The contract at concrete inputs\<close>

lemma cfg_ok: "ocr_configured demo_config None"
  by (simp add: ocr_configured_def demo_config_def get_model_config_def falsy_str_def asc_def)

lemma attempts_list_Suc: "[0 ..< Suc max_retries] = [0, Suc 0, 2]"
  by (simp add: max_retries_def upt_rec)

lemma ocr_file_configured:
  "ocr_configured cfg mo \<Longrightarrow>
   ocr_file env cfg net fd ft mo ev tr =
     (if fst (check_stop ev tr) then (Inr stopped_response, snd (check_stop ev tr))
      else ocr_attempts env net ft ev [0, Suc 0, 2] None (snd (check_stop ev tr)))"
  by (cases "check_stop ev tr")
     (simp add: ocr_file_def ocr_configured_def Let_def attempts_list_Suc
        del: ocr_attempts.simps upt_Suc)

lemma attempts_returns:
  "attempt_body env net ft ev a tr = (Inr r, tr1) \<Longrightarrow>
   ocr_attempts env net ft ev (a # rest) le tr = (Inr r, tr1)"
  by simp

lemma attempts_timeout:
  "attempt_body env net ft ev a tr = (Inl Timeout, tr1) \<Longrightarrow>
   ocr_attempts env net ft ev (a # rest) le tr
     = ocr_attempts env net ft ev rest (Some msg_timeout)
         (if a < max_retries then log (Sleep 10) tr1 else tr1)"
  by simp

lemma check_stop_eval:
  "check_stop (Some (Some n)) tr = (n \<le> length tr, tr @ [ReadStop (n \<le> length tr)])"
  by (simp add: check_stop_def is_set_def tok_set_at_def log_def Let_def)


lemma demo_handle_ok: "handle_response demo_env demo_ok = Inr demo_result"
  by code_simp


lemma demo_hyps_flaky:
  "not_cancelled None \<and> ocr_configured demo_config None \<and> 2 \<le> max_retries
     \<and> (\<forall>i<2. transient (net_flaky i)) \<and> net_flaky 2 = Inr demo_ok"
  by (simp add: not_cancelled_def cfg_ok max_retries_def net_flaky_def transient_def)

lemma demo_hyps_500:
  "not_cancelled None \<and> ocr_configured demo_config None \<and> 0 \<le> max_retries
     \<and> (\<forall>i<0. transient (net_500 i)) \<and> net_500 0 = Inr demo_500"
  by (simp add: not_cancelled_def cfg_ok net_500_def)

lemma demo_hyps_error_code:
  "not_cancelled None \<and> ocr_configured demo_config None \<and> 0 \<le> max_retries
     \<and> (\<forall>i<0. transient (net_error_code i)) \<and> net_error_code 0 = Inr demo_error_code"
  by (simp add: not_cancelled_def cfg_ok net_error_code_def)



theorem ocr_retry_contract_witness:
  "fst (ocr_file demo_env demo_config net_flaky [] 1 None None []) = Inr demo_result
   \<and> net_actions (snd (ocr_file demo_env demo_config net_flaky [] 1 None None []))
       = [HttpPost 0 1, Sleep 10, HttpPost 1 1, Sleep 10, HttpPost 2 1]
   \<and> fst (ocr_file demo_env demo_config net_500 [] 1 None None [])
       = Inr (ErrorResp (asc ''HTTP <repr>'') (Some (asc ''oops'')))
   \<and> fst (ocr_file demo_env demo_config net_error_code [] 1 None None [])
       = Inr (ErrorResp (msg_api_error @ asc ''bad'') (Some (asc ''<repr>'')))"
proof -
  from ocr_retry_contract [of demo_env demo_config net_flaky "[]" 1 None None "[]" 2 demo_ok]
  obtain mid where
    m: "snd (ocr_file demo_env demo_config net_flaky [] 1 None None []) = [] @ mid"
       "not_cancelled None \<and> ocr_configured demo_config None \<and> 2 \<le> max_retries
          \<and> (\<forall>i<2. transient (net_flaky i)) \<and> net_flaky 2 = Inr demo_ok
        \<longrightarrow> (\<forall>r. handle_response demo_env demo_ok = Inr r \<longrightarrow>
              fst (ocr_file demo_env demo_config net_flaky [] 1 None None []) = Inr r
            \<and> net_actions mid
                = take (2 * 2 + 1) [HttpPost 0 1, Sleep 10, HttpPost 1 1, Sleep 10, HttpPost 2 1])"
    by blast
  from m(2) demo_hyps_flaky have
    "\<forall>r. handle_response demo_env demo_ok = Inr r \<longrightarrow>
              fst (ocr_file demo_env demo_config net_flaky [] 1 None None []) = Inr r
            \<and> net_actions mid
                = take (2 * 2 + 1) [HttpPost 0 1, Sleep 10, HttpPost 1 1, Sleep 10, HttpPost 2 1]"
    by (rule mp)
  with demo_handle_ok have
    a: "fst (ocr_file demo_env demo_config net_flaky [] 1 None None []) = Inr demo_result"
       "net_actions mid = [HttpPost 0 1, Sleep 10, HttpPost 1 1, Sleep 10, HttpPost 2 1]"
    by simp_all
  from ocr_retry_contract [of demo_env demo_config net_500 "[]" 1 None None "[]" 0 demo_500]
    demo_hyps_500
  have b: "status_code demo_500 \<noteq> 200 \<longrightarrow>
        fst (ocr_file demo_env demo_config net_500 [] 1 None None [])
          = Inr (ErrorResp (asc ''HTTP '' @ py_repr demo_env (JInt (status_code demo_500)))
                           (Some (take 500 (body_text demo_500))))"
    by blast
  from ocr_retry_contract [of demo_env demo_config net_error_code "[]" 1 None None "[]" 0
          demo_error_code] demo_hyps_error_code
  have c: "\<forall>kvs c. status_code demo_error_code = 200
                  \<and> json_body demo_error_code = Inr (JObj kvs)
                  \<and> map_of kvs (asc ''errorCode'') = Some c \<and> py_ne_zero c \<longrightarrow>
              fst (ocr_file demo_env demo_config net_error_code [] 1 None None [])
                = Inr (ErrorResp (msg_api_error
                                   @ py_str demo_env (case map_of kvs (asc ''errorMsg'') of
                                                   None \<Rightarrow> JNull | Some m \<Rightarrow> m))
                                 (Some (take 500 (py_str demo_env (JObj kvs)))))"
    by blast
  have b': "fst (ocr_file demo_env demo_config net_500 [] 1 None None [])
       = Inr (ErrorResp (asc ''HTTP <repr>'') (Some (asc ''oops'')))"
    using b by (simp add: demo_500_def demo_env_def asc_def)
  have c': "fst (ocr_file demo_env demo_config net_error_code [] 1 None None [])
       = Inr (ErrorResp (msg_api_error @ asc ''bad'') (Some (asc ''<repr>'')))"
    using c [rule_format, of "[(asc ''errorCode'', JInt 7), (asc ''errorMsg'', JStr (asc ''bad''))]"
               "JInt 7"]
    by (simp add: demo_error_code_def demo_env_def asc_def py_ne_zero_def py_str_def)
  from a m(1) b' c' show ?thesis by simp
qed

text \<open>
  Claim C5 as stated does not hold once the stop event is set during the call: a
  non-200 answer then gives the "stopped" error without the raw body, and a third
  attempt that succeeds after two timeouts gives that error too.
\<close>

theorem ocr_retry_contract_counterexample:
  "net_500 0 = Inr demo_500 \<and> status_code demo_500 \<noteq> 200
   \<and> ocr_file demo_env demo_config net_500 [] 1 None (Some (Some 3)) []
       = (Inr (ErrorResp msg_task_stopped None),
          [ReadStop False, ReadStop False, HttpPost 0 1, ReadStop True])
   \<and> net_flaky 0 = Inl Timeout \<and> net_flaky 1 = Inl Timeout \<and> net_flaky 2 = Inr demo_ok
   \<and> handle_response demo_env demo_ok = Inr demo_result
   \<and> ocr_file demo_env demo_config net_flaky [] 1 None (Some (Some 9)) []
       = (Inr (ErrorResp msg_task_stopped None),
          [ReadStop False, ReadStop False, HttpPost 0 1, Sleep 10,
           ReadStop False, HttpPost 1 1, Sleep 10,
           ReadStop False, HttpPost 2 1, ReadStop True])"
proof -
  have n: "net_500 0 = Inr demo_500" "status_code demo_500 \<noteq> 200"
    "net_flaky 0 = Inl Timeout" "net_flaky 1 = Inl Timeout" "net_flaky 2 = Inr demo_ok"
    by (simp_all add: net_500_def demo_500_def net_flaky_def)
  have c1: "ocr_file demo_env demo_config net_500 [] 1 None (Some (Some 3)) []
       = (Inr (ErrorResp msg_task_stopped None),
          [ReadStop False, ReadStop False, HttpPost 0 1, ReadStop True])"
  proof -
    have ab: "attempt_body demo_env net_500 1 (Some (Some 3)) 0 [ReadStop False]
       = (Inr stopped_response, [ReadStop False, ReadStop False, HttpPost 0 1, ReadStop True])"
      by (simp add: attempt_body_def check_stop_eval log_def net_500_def)
    show ?thesis
      by (simp add: ocr_file_configured cfg_ok check_stop_eval attempts_returns [OF ab]
            stopped_response_def del: ocr_attempts.simps)
  qed
  have c2: "ocr_file demo_env demo_config net_flaky [] 1 None (Some (Some 9)) []
       = (Inr (ErrorResp msg_task_stopped None),
          [ReadStop False, ReadStop False, HttpPost 0 1, Sleep 10,
           ReadStop False, HttpPost 1 1, Sleep 10,
           ReadStop False, HttpPost 2 1, ReadStop True])"
  proof -
    have a0: "attempt_body demo_env net_flaky 1 (Some (Some 9)) 0 [ReadStop False]
       = (Inl Timeout, [ReadStop False, ReadStop False, HttpPost 0 1])"
      by (simp add: attempt_body_def check_stop_eval log_def net_flaky_def)
    have a1: "attempt_body demo_env net_flaky 1 (Some (Some 9)) (Suc 0)
                [ReadStop False, ReadStop False, HttpPost 0 1, Sleep 10]
       = (Inl Timeout, [ReadStop False, ReadStop False, HttpPost 0 1, Sleep 10,
                        ReadStop False, HttpPost (Suc 0) 1])"
      by (simp add: attempt_body_def check_stop_eval log_def net_flaky_def)
    have a2: "attempt_body demo_env net_flaky 1 (Some (Some 9)) 2
                [ReadStop False, ReadStop False, HttpPost 0 1, Sleep 10,
                 ReadStop False, HttpPost (Suc 0) 1, Sleep 10]
       = (Inr stopped_response,
          [ReadStop False, ReadStop False, HttpPost 0 1, Sleep 10,
           ReadStop False, HttpPost (Suc 0) 1, Sleep 10, ReadStop False, HttpPost 2 1,
           ReadStop True])"
      by (simp add: attempt_body_def check_stop_eval log_def net_flaky_def)
    show ?thesis
      by (simp add: ocr_file_configured cfg_ok check_stop_eval attempts_timeout [OF a0]
            attempts_timeout [OF a1] attempts_returns [OF a2] max_retries_def log_def
            stopped_response_def del: ocr_attempts.simps)
  qed
  from n c1 c2 demo_handle_ok show ?thesis by simp
qed


section \<open>Exporting: messages and output paths\<close>

lemma write_then_cases:
  "write_then xenv path msg tr =
     (case write_error xenv path of
        None \<Rightarrow> (Inr msg, tr @ [WriteFile path])
      | Some e \<Rightarrow> (Inl e, tr))"
  by (simp add: write_then_def write_file_def log_def split: option.splits)

lemma write_then_ok:
  "msg \<noteq> [] \<Longrightarrow> ext \<in> set export_exts \<Longrightarrow>
   wrote_or_raised w fp tr (write_then xenv (out_path w fp ext) msg tr)"
  by (auto simp: wrote_or_raised_def write_then_cases split: option.splits)

lemma exported_nonempty [simp]: "exported fp ext \<noteq> []"
  by (simp add: exported_def msg_exported_def)

lemma msgs_nonempty [simp]:
  "msg_need_docx \<noteq> []" "msg_docx_failed \<noteq> []" "msg_need_openpyxl \<noteq> []"
  "msg_excel_failed \<noteq> []" "msg_need_reportlab \<noteq> []" "msg_pdf_failed \<noteq> []"
  "msg_export_error \<noteq> []"
  by (simp_all add: msg_need_docx_def msg_docx_failed_def msg_need_openpyxl_def
        msg_excel_failed_def msg_need_reportlab_def msg_pdf_failed_def msg_export_error_def)

lemma exts_mem [simp]:
  "asc ''txt'' \<in> set export_exts" "asc ''json'' \<in> set export_exts"
  "asc ''csv'' \<in> set export_exts" "asc ''md'' \<in> set export_exts"
  "asc ''docx'' \<in> set export_exts" "asc ''xlsx'' \<in> set export_exts"
  "asc ''html'' \<in> set export_exts" "asc ''pdf'' \<in> set export_exts"
  "asc ''tex'' \<in> set export_exts" "asc ''py'' \<in> set export_exts"
  by (simp_all add: export_exts_def)

lemma doc_branch_ok:
  assumes "ok_msg \<noteq> []" "need_msg \<noteq> []" "failed_msg \<noteq> []"
    "ext \<in> set export_exts"
  shows "wrote_or_raised w fp tr
           (doc_branch env xenv lib (out_path w fp ext) ok_msg (out_path w fp (asc ''md''))
              need_msg failed_msg tr)"
proof (cases lib)
  case None
  show ?thesis
  proof (cases "write_error xenv (out_path w fp ext)")
    case N: None
    with None assms show ?thesis
      by (auto simp: doc_branch_def use_lib_def write_then_cases wrote_or_raised_def)
  next
    case (Some e)
    with None assms write_then_ok [of need_msg "asc ''md''" w fp tr xenv]
      write_then_ok [of "failed_msg @ take 30 (str_exn env e)" "asc ''md''" w fp tr xenv]
    show ?thesis
      by (cases e) (simp_all add: doc_branch_def use_lib_def write_then_cases)
  qed
next
  case (Some e)
  with assms write_then_ok [of need_msg "asc ''md''" w fp tr xenv]
      write_then_ok [of "failed_msg @ take 30 (str_exn env e)" "asc ''md''" w fp tr xenv]
  show ?thesis
    by (cases e) (simp_all add: doc_branch_def use_lib_def)
qed


lemma xlsx_body_ok: "wrote_or_raised w fp tr (xlsx_body xenv w fp md tabs lay tr)"
proof (cases "openpyxl_lib xenv")
  case (Some e)
  then show ?thesis by (simp add: xlsx_body_def use_lib_def wrote_or_raised_def)
next
  case None
  have x: "\<And>m. m \<noteq> [] \<Longrightarrow>
      wrote_or_raised w fp tr (write_then xenv (out_path w fp (asc ''xlsx'')) m tr)"
    by (rule write_then_ok) simp_all
  show ?thesis
    using None x
    by (auto simp: xlsx_body_def use_lib_def split: option.splits sum.splits)
       (simp_all add: wrote_or_raised_def)
qed

lemma xlsx_branch_cases:
  "wrote_or_raised w fp tr (xlsx_branch env xenv w fp md tabs lay tr)
   \<or> (\<exists>e. xlsx_branch env xenv w fp md tabs lay tr
              = (Inr (msg_excel_failed @ take 30 (str_exn env e)), tr))"
proof -
  from xlsx_body_ok [of w fp tr xenv md tabs lay]
  consider (wrote) m ext where
      "xlsx_body xenv w fp md tabs lay tr = (Inr m, tr @ [WriteFile (out_path w fp ext)])"
      "m \<noteq> []" "ext \<in> set export_exts"
    | (raised) e where "xlsx_body xenv w fp md tabs lay tr = (Inl e, tr)"
    unfolding wrote_or_raised_def by blast
  then show ?thesis
  proof cases
    case wrote
    then show ?thesis by (auto simp: xlsx_branch_def wrote_or_raised_def)
  next
    case (raised e)
    with write_then_ok [of msg_need_openpyxl "asc ''csv''" w fp tr xenv]
    show ?thesis
      by (cases e) (auto simp: xlsx_branch_def)
  qed
qed

lemma export_body_cases:
  "wrote_or_raised w fp tr (export_body env xenv w fp tx md tabs lay raw tr)
   \<or> (\<exists>e. export_body env xenv w fp tx md tabs lay raw tr
              = (Inr (msg_excel_failed @ take 30 (str_exn env e)), tr))"
proof -
  have wt: "\<And>m ext. m \<noteq> [] \<Longrightarrow> ext \<in> set export_exts \<Longrightarrow>
      wrote_or_raised w fp tr (write_then xenv (out_path w fp ext) m tr)"
    by (rule write_then_ok)
  have db: "\<And>lib ext need failed. need \<noteq> [] \<Longrightarrow> failed \<noteq> [] \<Longrightarrow> ext \<in> set export_exts \<Longrightarrow>
      wrote_or_raised w fp tr
        (doc_branch env xenv lib (out_path w fp ext) (exported fp ext) (out_path w fp (asc ''md''))
           need failed tr)"
    by (rule doc_branch_ok) simp_all
  show ?thesis
  proof (cases "export_kind_of (str_lower env (export_fmt w))")
    case KXlsx
    with xlsx_branch_cases [of w fp tr env xenv md tabs lay] show ?thesis
      by (simp add: export_body_def Let_def)
  next
    case KHtml
    with wt [of "exported fp (asc ''html'')" "asc ''html''"] show ?thesis
      by (auto simp: export_body_def Let_def split: sum.splits)
         (simp_all add: wrote_or_raised_def)
  qed (use wt db in \<open>simp_all add: export_body_def Let_def\<close>)
qed

lemma save_results_cases:
  "(\<exists>m ext. save_results env xenv w fp tx md tabs lay raw tr
               = (Inr m, tr @ [WriteFile (out_path w fp ext)]) \<and> m \<noteq> []
             \<and> ext \<in> set export_exts)
   \<or> (\<exists>e. save_results env xenv w fp tx md tabs lay raw tr
              = (Inr (msg_export_error @ take 50 (str_exn env e)), tr))
   \<or> (\<exists>e. save_results env xenv w fp tx md tabs lay raw tr
              = (Inr (msg_excel_failed @ take 30 (str_exn env e)), tr))"
  using export_body_cases [of w fp tr env xenv tx md tabs lay raw]
  unfolding wrote_or_raised_def save_results_def
  by (elim disjE exE conjE) (simp_all, blast+)


lemma demo_paths:
  "base_name (asc ''in/a.png'') = asc ''a''" "base_name (asc ''in/a.jpg'') = asc ''a''"
  by (simp_all add: base_name_def basename_def splitext_def rfind_def asc_def Let_def)

lemma demo_out_paths:
  "out_path (demo_worker fmt) (asc ''in/a.png'') (asc ''txt'') = asc ''out/a.txt''"
  "out_path (demo_worker fmt) (asc ''in/a.jpg'') (asc ''txt'') = asc ''out/a.txt''"
  "out_path (demo_worker fmt) (asc ''in/a.png'') (asc ''md'') = asc ''out/a.md''"
  "out_path (demo_worker fmt) (asc ''in/a.png'') (asc ''csv'') = asc ''out/a.csv''"
  by (simp_all add: out_path_def demo_paths path_join_def demo_worker_def BatchWorker_init_def)
     (simp_all add: asc_def)

lemma demo_kinds:
  "export_kind_of (asc ''txt'') = KTxt" "export_kind_of (asc ''docx'') = KDocx"
  "export_kind_of (asc ''xlsx'') = KXlsx" "export_kind_of (asc ''pdf'') = KPdf"
  by (simp_all add: export_kind_of_def asc_def kw_searchable_pdf_def kw_annotated_def
        kw_layout_tree_def kw_searchable_def)



lemma demo_fmt [simp]:
  "export_fmt (demo_worker fmt) = fmt" "str_lower demo_env s = s"
  by (simp_all add: demo_worker_def BatchWorker_init_def demo_env_def)



subsection \<open>Output paths\<close>

lemma rfind_drop_no_char: "c \<notin> set (drop (nat (rfind c p + 1)) p)"
proof (cases "c \<in> set p")
  case False
  then show ?thesis by (simp add: rfind_def)
next
  case True
  define k where "k = length (takeWhile (\<lambda>x. x \<noteq> c) (rev p))"
  have ne: "dropWhile (\<lambda>x. x \<noteq> c) (rev p) \<noteq> []"
    using True by (simp add: dropWhile_eq_Nil_conv)
  have "length p = k + length (dropWhile (\<lambda>x. x \<noteq> c) (rev p))"
    unfolding k_def by (metis length_append length_rev takeWhile_dropWhile_id)
  with ne have kl: "k < length p" by simp
  have r: "rfind c p = int (length p) - 1 - int k"
    using True unfolding rfind_def k_def by (simp only: if_True)
  have n: "nat (rfind c p + 1) = length p - k"
    unfolding r using kl by linarith
  have "drop (length p - k) p = rev (take k (rev p))"
    using kl by (simp add: rev_take)
  also have "take k (rev p) = takeWhile (\<lambda>x. x \<noteq> c) (rev p)"
    unfolding k_def by (rule takeWhile_eq_take [symmetric])
  finally have d: "drop (nat (rfind c p + 1)) p = rev (takeWhile (\<lambda>x. x \<noteq> c) (rev p))"
    using n by simp
  show ?thesis
    unfolding d by (auto dest: set_takeWhileD)
qed

lemma base_name_no_slash: "47 \<notin> set (base_name fp)"
proof -
  have b: "47 \<notin> set (basename fp)"
    unfolding basename_def by (rule rfind_drop_no_char)
  have "set (fst (splitext q)) \<subseteq> set q" for q
    by (auto simp: splitext_def Let_def dest: in_set_takeD)
  with b show ?thesis
    unfolding base_name_def by blast
qed

lemma exts_no_dot: "ext \<in> set export_exts \<Longrightarrow> 46 \<notin> set ext"
  by (auto simp: export_exts_def asc_def)



lemma append_dot_inj:
  "46 \<notin> set e1 \<Longrightarrow> 46 \<notin> set e2 \<Longrightarrow> b1 @ 46 # e1 = b2 @ 46 # e2 \<Longrightarrow> b1 = (b2 :: nat list)"
  by (auto simp: append_eq_append_conv2 append_eq_Cons_conv Cons_eq_append_conv)



lemma path_join_inj:
  assumes "n1 \<noteq> []" "hd n1 \<noteq> 47" "n2 \<noteq> []" "hd n2 \<noteq> 47"
    "path_join d n1 = path_join d n2"
  shows "n1 = n2"
  using assms by (auto simp: path_join_def split: if_splits)


lemma out_path_inj:
  assumes "e1 \<in> set export_exts" "e2 \<in> set export_exts"
    "out_path w f1 e1 = out_path w f2 e2"
  shows "base_name f1 = base_name f2"
proof -
  have h: "base_name f @ [46] @ e \<noteq> []" "hd (base_name f @ [46] @ e) \<noteq> 47" for f e
    using base_name_no_slash [of f] by (cases "base_name f"; simp)+
  from assms(3) have pj: "path_join (output_dir w) (base_name f1 @ [46] @ e1)
         = path_join (output_dir w) (base_name f2 @ [46] @ e2)"
    by (simp only: out_path_def)
  have "base_name f1 @ [46] @ e1 = base_name f2 @ [46] @ e2"
    by (rule path_join_inj [OF h(1) h(2) h(1) h(2) pj])
  then have "base_name f1 @ 46 # e1 = base_name f2 @ 46 # e2" by simp
  with exts_no_dot [OF assms(1)] exts_no_dot [OF assms(2)] show ?thesis
    by (rule append_dot_inj)
qed

lemma save_results_written:
  assumes "save_results env xenv w fp tx md tabs lay raw tr = (res, tr @ [WriteFile p])"
  shows "\<exists>ext. ext \<in> set export_exts \<and> p = out_path w fp ext"
proof -
  from save_results_cases [of env xenv w fp tx md tabs lay raw tr]
  consider (wrote) m ext where
      "save_results env xenv w fp tx md tabs lay raw tr
         = (Inr m, tr @ [WriteFile (out_path w fp ext)])" "ext \<in> set export_exts"
    | (failed) m where "save_results env xenv w fp tx md tabs lay raw tr = (Inr m, tr)"
    by blast
  then show ?thesis
  proof cases
    case wrote
    with assms have "p = out_path w fp ext" by simp
    with wrote(2) show ?thesis by blast
  next
    case failed
    with assms show ?thesis by simp
  qed
qed

text \<open>
  Claim C7, as amended.  Two inputs of a job whose base names (the file name without
  directory and last extension) differ are written to different paths, whatever the
  format and the environment of the two exports.
\<close>

theorem distinct_names_distinct_outputs:
  assumes "base_name f1 \<noteq> base_name f2"
    and "save_results env1 xenv1 w f1 tx1 md1 tabs1 lay1 raw1 tr1 = (res1, tr1 @ [WriteFile p1])"
    and "save_results env2 xenv2 w f2 tx2 md2 tabs2 lay2 raw2 tr2 = (res2, tr2 @ [WriteFile p2])"
  shows "p1 \<noteq> p2"
proof
  assume eq: "p1 = p2"
  from save_results_written [OF assms(2)]
  obtain e1 where e1: "e1 \<in> set export_exts" "p1 = out_path w f1 e1" by blast
  from save_results_written [OF assms(3)]
  obtain e2 where e2: "e2 \<in> set export_exts" "p2 = out_path w f2 e2" by blast
  from eq e1(2) e2(2) have "out_path w f1 e1 = out_path w f2 e2" by simp
  from out_path_inj [OF e1(1) e2(1) this] assms(1) show False by simp
qed

lemma demo_save_txt:
  "save_results demo_env xenv_ok (demo_worker (asc ''txt'')) fp tx md tabs lay raw []
     = (Inr (exported fp (asc ''txt'')),
        [WriteFile (out_path (demo_worker (asc ''txt'')) fp (asc ''txt''))])"
  by (simp add: save_results_def export_body_def Let_def demo_kinds write_then_cases
        xenv_ok_def)

lemma demo_base_b: "base_name (asc ''in/b.png'') = asc ''b''"
  by (simp add: base_name_def basename_def splitext_def rfind_def asc_def Let_def)

lemma demo_out_path_b:
  "out_path (demo_worker fmt) (asc ''in/b.png'') (asc ''txt'') = asc ''out/b.txt''"
  by (simp add: out_path_def demo_base_b path_join_def demo_worker_def BatchWorker_init_def)
     (simp add: asc_def)

theorem distinct_names_distinct_outputs_witness:
  "base_name (asc ''in/a.png'') \<noteq> base_name (asc ''in/b.png'')
   \<and> snd (save_results demo_env xenv_ok (demo_worker (asc ''txt'')) (asc ''in/a.png'')
            (asc ''x'') [] [] [] JNull [])
       = [WriteFile (asc ''out/a.txt'')]
   \<and> snd (save_results demo_env xenv_ok (demo_worker (asc ''txt'')) (asc ''in/b.png'')
            (asc ''y'') [] [] [] JNull [])
       = [WriteFile (asc ''out/b.txt'')]
   \<and> asc ''out/a.txt'' \<noteq> asc ''out/b.txt''"
proof -
  have n: "base_name (asc ''in/a.png'') \<noteq> base_name (asc ''in/b.png'')"
    by (simp add: demo_paths demo_base_b) (simp add: asc_def)
  have a: "save_results demo_env xenv_ok (demo_worker (asc ''txt'')) (asc ''in/a.png'') (asc ''x'')
        [] [] [] JNull []
       = (Inr (exported (asc ''in/a.png'') (asc ''txt'')), [] @ [WriteFile (asc ''out/a.txt'')])"
    by (simp add: demo_save_txt demo_out_paths)
  have b: "save_results demo_env xenv_ok (demo_worker (asc ''txt'')) (asc ''in/b.png'') (asc ''y'')
        [] [] [] JNull []
       = (Inr (exported (asc ''in/b.png'') (asc ''txt'')), [] @ [WriteFile (asc ''out/b.txt'')])"
    by (simp add: demo_save_txt demo_out_path_b)
  from distinct_names_distinct_outputs [OF n a b]
  have "asc ''out/a.txt'' \<noteq> asc ''out/b.txt''" .
  with n a b show ?thesis by simp
qed

text \<open>
  Claim C7 as stated fails for two distinct inputs with the same base name: both
  \<open>in/a.png\<close> and \<open>in/a.jpg\<close> are exported to \<open>out/a.txt\<close>.
\<close>

theorem distinct_names_distinct_outputs_counterexample:
  "asc ''in/a.png'' \<noteq> asc ''in/a.jpg''
   \<and> snd (save_results demo_env xenv_ok (demo_worker (asc ''txt'')) (asc ''in/a.png'')
            (asc ''x'') [] [] [] JNull [])
       = [WriteFile (asc ''out/a.txt'')]
   \<and> snd (save_results demo_env xenv_ok (demo_worker (asc ''txt'')) (asc ''in/a.jpg'')
            (asc ''y'') [] [] [] JNull [])
       = [WriteFile (asc ''out/a.txt'')]"
  by (simp add: demo_save_txt demo_out_paths) (simp add: asc_def)

section \<open>The worker's run: terminal events, submissions, stop marks\<close>

lemma grows_trans: "grows P tok tr1 tr2 \<Longrightarrow> grows P tok tr0 tr1 \<Longrightarrow> grows P tok tr0 tr2"
  by (induction rule: grows.induct) (auto intro: grows.intros)

lemma grows_mono:
  assumes "grows P tok tr tr1" "\<And>a. P a \<Longrightarrow> Q a"
  shows "grows Q tok tr tr1"
  using assms by (induction rule: grows.induct) (auto intro: grows.intros)

lemma grows_lift:
  assumes "grows P tok tr tr1" "\<And>a. P a \<Longrightarrow> Q a" "grows Q tok tr0 tr"
  shows "grows Q tok tr0 tr1"
  by (rule grows_trans [OF grows_mono [OF assms(1,2)] assms(3)])

lemma grows_is_set: "is_set tok tr = (b, tr1) \<Longrightarrow> grows P tok tr0 tr \<Longrightarrow> grows P tok tr0 tr1"
  using grows_read [of P tok tr0 tr] by simp

lemma grows_append:
  "grows P tok tr0 tr \<Longrightarrow> \<forall>a\<in>set new. P a \<Longrightarrow> grows P tok tr0 (tr @ new)"
proof (induction new arbitrary: tr)
  case Nil
  then show ?case by simp
next
  case (Cons a new)
  from Cons.prems have "grows P tok tr0 (log a tr)" by (auto intro: grows_log)
  from Cons.IH [OF this] Cons.prems(2) show ?case by (simp add: log_def)
qed

lemma grows_extends:
  "grows P tok tr tr1 \<Longrightarrow> \<exists>new. tr1 = tr @ new \<and> (\<forall>a\<in>set new. P a \<or> (\<exists>b. a = ReadStop b))"
proof (induction rule: grows.induct)
  case (grows_refl P tok tr)
  then show ?case by simp
next
  case (grows_log P tok tr tr1 a)
  then show ?case by (auto simp: log_def)
next
  case (grows_read P tok tr tr1)
  then show ?case by (auto simp: is_set_def Let_def log_def)
qed

lemma grows_never:
  "grows P tok tr tr1 \<Longrightarrow> tok = None \<Longrightarrow>
     \<exists>new. tr1 = tr @ new \<and> (\<forall>a\<in>set new. P a \<or> a = ReadStop False)"
proof (induction rule: grows.induct)
  case (grows_refl P tok tr)
  then show ?case by simp
next
  case (grows_log P tok tr tr1 a)
  then show ?case by (auto simp: log_def)
next
  case (grows_read P tok tr tr1)
  then show ?case by (auto simp: is_set_def Let_def log_def tok_set_at_def)
qed

lemma tok_set_at_mono: "tok_set_at tok t \<Longrightarrow> t \<le> t' \<Longrightarrow> tok_set_at tok t'"
  by (auto simp: tok_set_at_def split: option.splits)

text \<open>A set event that was read as set is still set at the end of the trace.\<close>

lemma grows_seen:
  "grows P tok tr tr1 \<Longrightarrow> \<not> P (ReadStop True) \<Longrightarrow>
     (ReadStop True \<in> set tr \<longrightarrow> tok_set_at tok (length tr)) \<Longrightarrow>
     (ReadStop True \<in> set tr1 \<longrightarrow> tok_set_at tok (length tr1))"
proof (induction rule: grows.induct)
  case (grows_refl P tok tr)
  then show ?case by simp
next
  case (grows_log P tok tr tr1 a)
  then show ?case
    by (auto simp: log_def intro: tok_set_at_mono)
next
  case (grows_read P tok tr tr1)
  then show ?case
    by (auto simp: is_set_def Let_def log_def intro: tok_set_at_mono)
qed

lemma is_wait_simps [simp]:
  "is_wait (PollDone i d)" "is_wait (Sleep n)" "\<not> is_wait (ReadStop b)"
  "\<not> is_wait (Submit i fp)" "\<not> is_wait Finished" "\<not> is_wait Stopped"
  "\<not> is_wait (StatusUpdate r s)" "\<not> is_wait (ProgressUpdate r x y)"
  "\<not> is_wait (ResultUpdate r m)"
  by (simp_all add: is_wait_def)

lemma is_submit_simps [simp]:
  "is_submit (Submit i fp)" "\<not> is_submit (ReadStop b)" "\<not> is_submit (PollDone i d)"
  "\<not> is_submit (Sleep n)" "\<not> is_submit Finished" "\<not> is_submit Stopped"
  "\<not> is_submit Shutdown" "\<not> is_submit PrintFatal" "\<not> is_submit (MakeDirs dir)"
  "\<not> is_submit (StatusUpdate r s)" "\<not> is_submit (ProgressUpdate r x y)"
  "\<not> is_submit (ResultUpdate r m)"
  by (simp_all add: is_submit_def)

lemma is_signal_simps [simp]:
  "is_signal (StatusUpdate r s)" "is_signal (ProgressUpdate r x y)" "is_signal (ResultUpdate r m)"
  "\<not> is_signal (ReadStop b)" "\<not> is_signal (PollDone i d)" "\<not> is_signal (Sleep n)"
  "\<not> is_signal Finished" "\<not> is_signal Stopped" "\<not> is_signal Shutdown"
  "\<not> is_signal PrintFatal" "\<not> is_signal (MakeDirs dir)" "\<not> is_signal (Submit i fp)"
  "\<not> is_signal (ReadFile fp)" "\<not> is_signal (HttpPost k ft)" "\<not> is_signal (WriteFile fp)"
  by (simp_all add: is_signal_def)

lemma is_terminal_simps [simp]:
  "is_terminal Finished" "is_terminal Stopped"
  "\<not> is_terminal (ReadStop b)" "\<not> is_terminal (StatusUpdate r s)"
  "\<not> is_terminal (ProgressUpdate r x y)" "\<not> is_terminal (ResultUpdate r m)"
  "\<not> is_terminal (MakeDirs dir)" "\<not> is_terminal (Submit i fp)" "\<not> is_terminal (PollDone i d)"
  "\<not> is_terminal (Sleep n)" "\<not> is_terminal Shutdown" "\<not> is_terminal PrintFatal"
  "\<not> is_terminal (ReadFile fp)" "\<not> is_terminal (HttpPost k ft)" "\<not> is_terminal (WriteFile fp)"
  by (simp_all add: is_terminal_def)

lemma wait_not_other: "is_wait a \<Longrightarrow> \<not> is_submit a \<and> \<not> is_signal a \<and> \<not> is_terminal a"
  by (cases a) (simp_all add: is_wait_def)

lemma run_action_not_terminal: "is_run_action a \<Longrightarrow> \<not> is_terminal a \<and> a \<noteq> ReadStop b"
  by (cases a) (auto simp: is_run_action_def is_loop_action_def is_wait_def is_signal_def
      is_submit_def is_terminal_def)

lemma is_run_action_simps [simp]:
  "is_run_action Shutdown" "is_run_action PrintFatal" "is_run_action (MakeDirs dir)"
  by (simp_all add: is_run_action_def)

lemma grows_wait_loop:
  "grows is_wait tok tr tr1 \<Longrightarrow> grows is_loop_action tok tr0 tr
     \<Longrightarrow> grows is_loop_action tok tr0 tr1"
  by (erule grows_lift) (simp_all add: is_loop_action_def)

lemma grows_loop_run:
  "grows is_loop_action tok tr tr1 \<Longrightarrow> grows is_run_action tok tr0 tr
     \<Longrightarrow> grows is_run_action tok tr0 tr1"
  by (erule grows_lift) (simp_all add: is_run_action_def)

lemma grows_wait_run:
  "grows is_wait tok tr tr1 \<Longrightarrow> grows is_run_action tok tr0 tr
     \<Longrightarrow> grows is_run_action tok tr0 tr1"
  by (erule grows_lift) (simp_all add: is_run_action_def is_loop_action_def)

lemma grows_poll_done:
  "poll_done jenv i tr = (d, tr1) \<Longrightarrow> grows is_wait tok tr0 tr \<Longrightarrow> grows is_wait tok tr0 tr1"
  by (auto simp: poll_done_def Let_def intro!: grows_log)

lemma grows_poll_all:
  "poll_all jenv pending tr = (p, tr1) \<Longrightarrow> grows is_wait tok tr0 tr \<Longrightarrow> grows is_wait tok tr0 tr1"
proof (induction pending arbitrary: tr p tr1)
  case Nil
  then show ?case by simp
next
  case (Cons i rest)
  obtain d t1 where pd: "poll_done jenv i tr = (d, t1)" by (cases "poll_done jenv i tr")
  obtain p0 t2 where pa: "poll_all jenv rest t1 = (p0, t2)" by (cases "poll_all jenv rest t1")
  from Cons.prems(1) pd pa have "tr1 = t2" by simp
  with Cons.IH [OF pa grows_poll_done [OF pd Cons.prems(2)]] show ?case by simp
qed

text \<open>A round over the pending tasks drops a task only when it has seen it done.\<close>

lemma poll_all_done:
  "poll_all jenv pending tr = (p, tr1) \<Longrightarrow>
     set tr \<subseteq> set tr1 \<and> (\<forall>i\<in>set pending. i \<in> set p \<or> PollDone i True \<in> set tr1)"
proof (induction pending arbitrary: tr p tr1)
  case Nil
  then show ?case by simp
next
  case (Cons i rest)
  obtain d t1 where pd: "poll_done jenv i tr = (d, t1)" by (cases "poll_done jenv i tr")
  obtain p0 t2 where pa: "poll_all jenv rest t1 = (p0, t2)" by (cases "poll_all jenv rest t1")
  from pd have t1: "t1 = tr @ [PollDone i d]" by (auto simp: poll_done_def Let_def log_def)
  from Cons.prems pd pa have r: "tr1 = t2" "p = (if d then p0 else i # p0)" by simp_all
  from Cons.IH [OF pa] have ih: "set t1 \<subseteq> set t2"
    "\<forall>j\<in>set rest. j \<in> set p0 \<or> PollDone j True \<in> set t2" by simp_all
  show ?case
    using r t1 ih by (cases d) auto
qed

lemma drain_cases:
  assumes "drain jenv tok pending tr = (p, tr1)"
  obtains (empty) "pending = []" "p = []" "tr1 = tr"
    | (stopped) "pending \<noteq> []" "fst (is_set tok tr)" "p = pending" "tr1 = snd (is_set tok tr)"
    | (all_done) "pending \<noteq> []" "\<not> fst (is_set tok tr)"
        "poll_all jenv pending (snd (is_set tok tr)) = ([], tr1)" "p = []"
    | (again) p' t2 where "pending \<noteq> []" "\<not> fst (is_set tok tr)"
        "poll_all jenv pending (snd (is_set tok tr)) = (p', t2)" "p' \<noteq> []"
        "drain jenv tok p' (if fst (is_set tok t2) then snd (is_set tok t2)
                            else log (Sleep 1) (snd (is_set tok t2))) = (p, tr1)"
proof -
  note u = assms [unfolded drain.simps [of jenv tok pending tr]]
  show ?thesis
  proof (cases "pending = []")
    case True
    with u have e: "p = []" "tr1 = tr" by auto
    show ?thesis by (rule empty) (use True e in simp_all)
  next
    case False
    obtain b t1 where s1: "is_set tok tr = (b, t1)" by (cases "is_set tok tr")
    show ?thesis
    proof (cases b)
      case True
      with u False s1 have e: "p = pending" "tr1 = t1" by auto
      show ?thesis by (rule stopped) (use False s1 True e in simp_all)
    next
      case nb: False
      obtain p' t2 where pa: "poll_all jenv pending t1 = (p', t2)"
        by (cases "poll_all jenv pending t1")
      show ?thesis
      proof (cases "p' = []")
        case True
        with u False s1 nb pa have e: "p = []" "tr1 = t2" by auto
        show ?thesis by (rule all_done) (use False s1 nb pa True e in simp_all)
      next
        case ne: False
        obtain b2 t3 where s2: "is_set tok t2 = (b2, t3)" by (cases "is_set tok t2")
        have "drain jenv tok p' (if b2 then t3 else log (Sleep 1) t3) = (p, tr1)"
          using u False s1 nb pa ne s2 by (simp split: if_splits)
        then show ?thesis
          by (cases b2; intro again [of p' t2]) (use False s1 nb pa ne s2 in simp_all)
      qed
    qed
  qed
qed

lemma grows_drain:
  "drain jenv tok pending tr = (p, tr1) \<Longrightarrow> grows is_wait tok tr0 tr \<Longrightarrow> grows is_wait tok tr0 tr1"
proof (induction jenv tok pending tr arbitrary: p tr1 rule: drain.induct)
  case (1 jenv tok pending tr)
  from "1.prems"(1) show ?case
  proof (cases rule: drain_cases)
    case empty
    with "1.prems"(2) show ?thesis by simp
  next
    case stopped
    with grows_read [OF "1.prems"(2)] show ?thesis by simp
  next
    case all_done
    from grows_poll_all [OF all_done(3) grows_read [OF "1.prems"(2)]] show ?thesis .
  next
    case (again p' t2)
    note g2 = grows_poll_all [OF again(3) grows_read [OF "1.prems"(2)]]
    note g3 = grows_read [OF g2]
    obtain b t1 where s1: "is_set tok tr = (b, t1)" by (cases "is_set tok tr")
    obtain b2 t3 where s2: "is_set tok t2 = (b2, t3)" by (cases "is_set tok t2")
    from again(2) s1 have nb: "\<not> b" by simp
    from again(3) s1 have pa: "poll_all jenv pending t1 = (p', t2)" by simp
    from g3 s2 have g3': "grows is_wait tok tr0 t3" by simp
    show ?thesis
    proof (cases b2)
      case True
      with again(5) s2 have d: "drain jenv tok p' t3 = (p, tr1)" by simp
      from "1.IH"(1) [OF again(1) s1 [symmetric] refl nb pa [symmetric] refl again(4)
          s2 [symmetric] refl True d g3']
      show ?thesis .
    next
      case nb2: False
      with again(5) s2 have d: "drain jenv tok p' (log (Sleep 1) t3) = (p, tr1)" by simp
      have gs: "grows is_wait tok tr0 (log (Sleep 1) t3)" by (rule grows_log [OF g3']) simp
      from "1.IH"(2) [OF again(1) s1 [symmetric] refl nb pa [symmetric] refl again(4)
          s2 [symmetric] refl nb2 d gs]
      show ?thesis .
    qed
  qed
qed

text \<open>While the stop event is not seen set, the wait ends with no task pending, and
  every task that was pending has been seen done.\<close>

lemma drain_done:
  "drain jenv tok pending tr = (p, tr1) \<Longrightarrow>
     set tr \<subseteq> set tr1
     \<and> (\<forall>i\<in>set pending. i \<in> set p \<or> PollDone i True \<in> set tr1)
     \<and> (p = [] \<or> ReadStop True \<in> set tr1)"
proof (induction jenv tok pending tr arbitrary: p tr1 rule: drain.induct)
  case (1 jenv tok pending tr)
  have sub: "set t \<subseteq> set (snd (is_set tok t))" for t
    by (auto simp: is_set_def Let_def log_def)
  from "1.prems"(1) show ?case
  proof (cases rule: drain_cases)
    case empty
    then show ?thesis by simp
  next
    case stopped
    then show ?thesis by (auto simp: is_set_def Let_def log_def)
  next
    case all_done
    from poll_all_done [OF all_done(3)] sub [of tr] all_done(4) show ?thesis by auto
  next
    case (again p' t2)
    obtain b t1 where s1: "is_set tok tr = (b, t1)" by (cases "is_set tok tr")
    obtain b2 t3 where s2: "is_set tok t2 = (b2, t3)" by (cases "is_set tok t2")
    from again(2) s1 have nb: "\<not> b" by simp
    from again(3) s1 have pa: "poll_all jenv pending t1 = (p', t2)" by simp
    from poll_all_done [OF pa] have pd: "set t1 \<subseteq> set t2"
      "\<forall>i\<in>set pending. i \<in> set p' \<or> PollDone i True \<in> set t2" by simp_all
    from sub [of tr] s1 have s01: "set tr \<subseteq> set t1" by simp
    from sub [of t2] s2 have s23: "set t2 \<subseteq> set t3" by simp
    show ?thesis
    proof (cases b2)
      case True
      with again(5) s2 have d: "drain jenv tok p' t3 = (p, tr1)" by simp
      from "1.IH"(1) [OF again(1) s1 [symmetric] refl nb pa [symmetric] refl again(4)
          s2 [symmetric] refl True d]
      have ih: "set t3 \<subseteq> set tr1" "\<forall>i\<in>set p'. i \<in> set p \<or> PollDone i True \<in> set tr1"
        "p = [] \<or> ReadStop True \<in> set tr1" by simp_all
      with pd s01 s23 show ?thesis by blast
    next
      case nb2: False
      with again(5) s2 have d: "drain jenv tok p' (log (Sleep 1) t3) = (p, tr1)" by simp
      from "1.IH"(2) [OF again(1) s1 [symmetric] refl nb pa [symmetric] refl again(4)
          s2 [symmetric] refl nb2 d]
      have ih: "set (log (Sleep 1) t3) \<subseteq> set tr1"
        "\<forall>i\<in>set p'. i \<in> set p \<or> PollDone i True \<in> set tr1"
        "p = [] \<or> ReadStop True \<in> set tr1" by simp_all
      from ih(1) have "set t3 \<subseteq> set tr1" by (auto simp: log_def)
      with ih pd s01 s23 show ?thesis by blast
    qed
  qed
qed


lemma row_index_slot: "row_index w j = Inr (slot_of w j)"
  by (simp add: row_index_def py_index_def slot_of_def)

lemma mark_stopped_trace: "mark_stopped w js tr = (Inr (), tr @ stop_marks w js)"
proof (induction js arbitrary: tr)
  case Nil
  then show ?case by (simp add: stop_marks_def)
next
  case (Cons j js)
  show ?case
    by (simp add: row_index_slot Cons.IH) (simp add: stop_marks_def log_def)
qed

lemma stop_marks_signals: "a \<in> set (stop_marks w js) \<Longrightarrow> is_signal a"
  by (auto simp: stop_marks_def)

lemma stop_marks_filters [simp]:
  "filter is_signal (stop_marks w js) = stop_marks w js"
  "filter is_submit (stop_marks w js) = []"
  "filter is_terminal (stop_marks w js) = []"
  by (induction js) (simp_all add: stop_marks_def)

lemma slots_total: "efold (\<lambda>i u. ebind (row_index w i) (\<lambda>r. Inr ())) js () = Inr ()"
  by (induction js) (simp_all add: ebind_def row_index_slot)

lemma grows_wait_poll: "grows is_wait tok tr0 tr \<Longrightarrow> grows is_wait tok tr0 (wait_poll tok n tr)"
proof (induction n arbitrary: tr)
  case 0
  then show ?case by simp
next
  case (Suc n)
  obtain b t1 where s1: "is_set tok tr = (b, t1)" by (cases "is_set tok tr")
  note g1 = grows_is_set [OF s1 Suc.prems]
  show ?case
  proof (cases b)
    case True
    with s1 g1 show ?thesis by simp
  next
    case False
    have "grows is_wait tok tr0 (log (Sleep 1) t1)" by (rule grows_log [OF g1]) simp
    from Suc.IH [OF this] s1 False show ?thesis by simp
  qed
qed

lemma grows_wait_prev:
  "grows is_wait tok tr0 tr \<Longrightarrow> grows is_wait tok tr0 (wait_prev jenv tok i n tr)"
proof (induction n arbitrary: tr)
  case 0
  then show ?case by simp
next
  case (Suc n)
  obtain b t1 where s1: "is_set tok tr = (b, t1)" by (cases "is_set tok tr")
  note g1 = grows_is_set [OF s1 Suc.prems]
  obtain d t2 where pd: "poll_done jenv i t1 = (d, t2)" by (cases "poll_done jenv i t1")
  note g2 = grows_poll_done [OF pd g1]
  show ?case
  proof (cases b)
    case True
    with s1 g1 show ?thesis by simp
  next
    case False
    have "grows is_wait tok tr0 (log (Sleep 1) t2)" by (rule grows_log [OF g2]) simp
    from Suc.IH [OF this] s1 False pd g2 show ?thesis by (cases d) simp_all
  qed
qed

lemma grows_ramp_up_wait: "grows is_wait tok tr (ramp_up_wait jenv tok i tr)"
proof -
  note g1 = grows_wait_poll [OF grows_refl, of tok tr 20]
  obtain b t2 where s1: "is_set tok (wait_poll tok 20 tr) = (b, t2)"
    by (cases "is_set tok (wait_poll tok 20 tr)")
  note g2 = grows_is_set [OF s1 g1]
  obtain d t3 where pd: "poll_done jenv i t2 = (d, t3)" by (cases "poll_done jenv i t2")
  note g3 = grows_poll_done [OF pd g2]
  note g4 = grows_wait_prev [OF g3, of jenv i 30]
  show ?thesis
    using s1 pd g2 g3 g4 by (simp add: ramp_up_wait_def Let_def)
qed

text \<open>The loop says "stopped" only after it has seen the event set.\<close>

lemma submit_loop_facts:
  "submit_loop w jenv tok items futures tr = (res, tr1) \<Longrightarrow> grows is_loop_action tok tr0 tr \<Longrightarrow>
     grows is_loop_action tok tr0 tr1
     \<and> (\<exists>ws fs. res = Inr (ws, fs) \<and> (ws \<longrightarrow> ReadStop True \<in> set tr1))"
proof (induction items arbitrary: futures tr res tr1)
  case Nil
  then show ?case by auto
next
  case (Cons item rest)
  obtain i fp where it: "item = (i, fp)" by (cases item)
  obtain b t1 where s1: "is_set tok tr = (b, t1)" by (cases "is_set tok tr")
  note g1 = grows_is_set [OF s1 Cons.prems(2)]
  show ?case
  proof (cases b)
    case True
    have g2: "grows is_loop_action tok tr0 (t1 @ stop_marks w [i ..< length (files w)])"
      by (rule grows_append [OF g1]) (auto simp: is_loop_action_def dest: stop_marks_signals)
    have rt: "ReadStop True \<in> set t1"
      using s1 True by (auto simp: is_set_def Let_def log_def)
    have "submit_loop w jenv tok (item # rest) futures tr
            = (Inr (True, futures), t1 @ stop_marks w [i ..< length (files w)])"
      unfolding it using s1 True by (simp add: mark_stopped_trace del: upt.simps)
    with Cons.prems(1) have e: "res = Inr (True, futures)"
      "tr1 = t1 @ stop_marks w [i ..< length (files w)]" by simp_all
    from rt have "ReadStop True \<in> set tr1" unfolding e by simp
    with g2 e show ?thesis by blast
  next
    case False
    define t3 where "t3 = (if int i < int (length (files w)) - 1
                           then ramp_up_wait jenv tok i (log (Submit i fp) t1)
                           else log (Submit i fp) t1)"
    have gs: "grows is_loop_action tok tr0 (log (Submit i fp) t1)"
      by (rule grows_log [OF g1]) (simp add: is_loop_action_def)
    have "grows is_loop_action tok tr0 (ramp_up_wait jenv tok i (log (Submit i fp) t1))"
      by (rule grows_wait_loop [OF grows_ramp_up_wait gs])
    with gs have g3: "grows is_loop_action tok tr0 t3"
      unfolding t3_def by simp
    have "submit_loop w jenv tok rest (futures @ [i]) t3 = (res, tr1)"
      using Cons.prems(1) it s1 False by (simp add: t3_def Let_def)
    from Cons.IH [OF this g3] show ?thesis .
  qed
qed

lemma run_try_facts:
  assumes "run_try w jenv tok tr = ((exc, ws, ex), tr1)"
  shows "grows is_run_action tok tr tr1 \<and> (ws \<longrightarrow> ReadStop True \<in> set tr1)"
proof -
  define pre where "pre = (if dir_exists jenv then (Inr (), tr)
            else (case makedirs_error jenv of
                    None \<Rightarrow> (Inr (), log (MakeDirs (output_dir w)) tr)
                  | Some e \<Rightarrow> (Inl e, tr)))"
  obtain r0 t0 where pre0: "pre = (r0, t0)" by (cases pre)
  have g0: "grows is_run_action tok tr t0"
    using pre0 unfolding pre_def
    by (auto split: if_splits option.splits intro!: grows_log grows_refl simp: is_run_action_def)
  show ?thesis
  proof (cases r0)
    case (Inl e)
    with assms pre0 g0 show ?thesis
      by (simp add: run_try_def pre_def [symmetric])
  next
    case (Inr u)
    show ?thesis
    proof (cases "max_workers w = 0")
      case True
      with assms pre0 Inr g0 show ?thesis
        by (simp add: run_try_def pre_def [symmetric])
    next
      case False
      obtain r2 t2 where sl: "submit_loop w jenv tok (zip [0 ..< length (files w)] (files w)) [] t0
                                = (r2, t2)"
        by (cases "submit_loop w jenv tok (zip [0 ..< length (files w)] (files w)) [] t0")
      from submit_loop_facts [OF sl grows_refl] obtain ws0 fs where
        sf: "grows is_loop_action tok t0 t2" "r2 = Inr (ws0, fs)" "ws0 \<longrightarrow> ReadStop True \<in> set t2"
        by blast
      note g2 = grows_loop_run [OF sf(1) g0]
      obtain b t3 where s3: "is_set tok t2 = (b, t3)" by (cases "is_set tok t2")
      note g3 = grows_is_set [OF s3 g2]
      show ?thesis
      proof (cases b)
        case True
        have rt: "ReadStop True \<in> set t3"
          using s3 True by (auto simp: is_set_def Let_def log_def)
        have "tr1 = log Shutdown t3" "ws"
          using assms pre0 Inr False sl sf(2) s3 True
          by (simp_all add: run_try_def pre_def [symmetric] slots_total)
        moreover have "grows is_run_action tok tr (log Shutdown t3)"
          by (rule grows_log [OF g3]) (rule is_run_action_simps)
        ultimately show ?thesis using rt by (simp add: log_def)
      next
        case nb: False
        obtain p t4 where dr: "drain jenv tok fs t3 = (p, t4)" by (cases "drain jenv tok fs t3")
        note g4 = grows_wait_run [OF grows_drain [OF dr grows_refl] g3]
        obtain b2 t5 where s5: "is_set tok t4 = (b2, t5)" by (cases "is_set tok t4")
        note g5 = grows_is_set [OF s5 g4]
        show ?thesis
        proof (cases b2)
          case True
          have rt: "ReadStop True \<in> set t5"
            using s5 True by (auto simp: is_set_def Let_def log_def)
          have g6: "grows is_run_action tok tr (t5 @ stop_marks w p)"
            by (rule grows_append [OF g5])
               (auto simp: is_run_action_def is_loop_action_def dest: stop_marks_signals)
          have "tr1 = t5 @ stop_marks w p" "ws"
            using assms pre0 Inr False sl sf(2) s3 nb dr s5 True
            by (simp_all add: run_try_def pre_def [symmetric] mark_stopped_trace)
          with g6 rt show ?thesis by simp
        next
          case nb2: False
          have "tr1 = t5" "ws = ws0"
            using assms pre0 Inr False sl sf(2) s3 nb dr s5 nb2
            by (simp_all add: run_try_def pre_def [symmetric])
          moreover from grows_is_set [OF s5 grows_wait_run [OF grows_drain [OF dr grows_refl]
                 grows_is_set [OF s3 grows_refl [of is_run_action tok t2]]]]
          have "\<exists>new. t5 = t2 @ new" using grows_extends by blast
          ultimately show ?thesis using g5 sf(3) by auto
        qed
      qed
    qed
  qed
qed

text \<open>
  Claim C2.  Every run of the worker, whatever the environment and whenever the stop
  event is set (also when the \<open>try\<close> block is left by an exception), emits exactly one
  job-terminal event, as its last action: \<open>stopped\<close> if the run has seen the stop event
  set at any of its looks, \<open>finished\<close> otherwise.
\<close>

theorem run_one_terminal_event:
  "filter is_terminal (run w jenv sched [])
     = [if ReadStop True \<in> set (run w jenv sched []) then Stopped else Finished]
   \<and> last (run w jenv sched [])
     = (if ReadStop True \<in> set (run w jenv sched []) then Stopped else Finished)"
proof -
  define tok where "tok = worker_token w sched"
  obtain exc ws ex t1 where rt: "run_try w jenv tok [] = ((exc, ws, ex), t1)"
    by (cases "run_try w jenv tok []") auto
  from run_try_facts [OF rt] have g1: "grows is_run_action tok [] t1"
    and wsr: "ws \<longrightarrow> ReadStop True \<in> set t1"
    by simp_all
  define t2 where "t2 = (case exc of None \<Rightarrow> t1 | Some e \<Rightarrow> log PrintFatal t1)"
  define t3 where "t3 = (if ex then log Shutdown t2 else t2)"
  have g2: "grows is_run_action tok [] t2"
    unfolding t2_def using g1
    by (auto split: option.splits intro!: grows_log simp: is_run_action_def)
  have g3: "grows is_run_action tok [] t3"
    unfolding t3_def using g2 by (auto intro!: grows_log simp: is_run_action_def)
  from grows_extends [OF g3] have nt: "filter is_terminal t3 = []"
    by (auto simp: filter_empty_conv dest: run_action_not_terminal)
  have "\<not> is_run_action (ReadStop True)"
    using run_action_not_terminal by blast
  from grows_seen [OF g3 this]
  have seen: "ReadStop True \<in> set t3 \<longrightarrow> tok_set_at tok (length t3)"
    by simp
  have sub: "set t1 \<subseteq> set t3"
    unfolding t3_def t2_def by (auto simp: log_def split: option.splits)
  obtain b t4 where s4: "is_set tok t3 = (b, t4)" by (cases "is_set tok t3")
  then have t4: "t4 = t3 @ [ReadStop b]" "b = tok_set_at tok (length t3)"
    by (auto simp: is_set_def Let_def log_def)
  have r: "run w jenv sched []
             = (if ws then log Stopped t3 else if b then log Stopped t4 else log Finished t4)"
  proof -
    have "run w jenv sched []
            = (if ws then log Stopped t3
               else case is_set tok t3 of
                      (b, tr4) \<Rightarrow> if b then log Stopped tr4 else log Finished tr4)"
      using rt by (simp add: run_def tok_def [symmetric] t2_def t3_def Let_def)
    with s4 show ?thesis by simp
  qed
  show ?thesis
  proof (cases ws)
    case True
    with wsr sub have "ReadStop True \<in> set t3" by auto
    with r True nt show ?thesis by (simp add: log_def)
  next
    case False
    show ?thesis
    proof (cases b)
      case True
      with r False nt t4 show ?thesis by (simp add: log_def)
    next
      case nb: False
      with seen t4 have "ReadStop True \<notin> set t3" by auto
      with r False nb nt t4 show ?thesis by (simp add: log_def)
    qed
  qed
qed

section \<open>Jobs stopped before the first submission, and jobs never stopped\<close>

lemma is_set_never: "is_set None tr = (False, tr @ [ReadStop False])"
  by (simp add: is_set_def tok_set_at_def log_def)

lemma is_set_when_set: "tok_set_at tok (length tr) \<Longrightarrow> is_set tok tr = (True, tr @ [ReadStop True])"
  by (simp add: is_set_def log_def)

lemma zip_enumerate_Cons:
  "zip [0 ..< length (f # fs)] (f # fs) = (0, f) # zip [Suc 0 ..< Suc (length fs)] fs"
  by (simp add: upt_conv_Cons del: upt.simps)

text \<open>With the stop event never set, the loop submits every item.\<close>

lemma submit_loop_never:
  "\<exists>new. submit_loop w jenv None items futures tr
            = (Inr (False, futures @ map fst items), tr @ new)
         \<and> filter is_submit new = map (\<lambda>(i, fp). Submit i fp) items
         \<and> (\<forall>a\<in>set new. is_submit a \<or> is_wait a \<or> a = ReadStop False)"
proof (induction items arbitrary: futures tr)
  case Nil
  then show ?case by simp
next
  case (Cons item rest)
  obtain i fp where it: "item = (i, fp)" by (cases item)
  define t2 where "t2 = tr @ [ReadStop False, Submit i fp]"
  define t3 where "t3 = (if int i < int (length (files w)) - 1
                         then ramp_up_wait jenv None i t2 else t2)"
  from grows_never [OF grows_ramp_up_wait [of None t2 jenv i] refl]
  obtain rn where rn: "ramp_up_wait jenv None i t2 = t2 @ rn"
    "\<forall>a\<in>set rn. is_wait a \<or> a = ReadStop False" by blast
  define rn' where "rn' = (if int i < int (length (files w)) - 1 then rn else [])"
  have t3: "t3 = t2 @ rn'" unfolding t3_def rn'_def using rn(1) by simp
  have rn': "\<forall>a\<in>set rn'. is_wait a \<or> a = ReadStop False"
    unfolding rn'_def using rn(2) by simp
  then have fr: "filter is_submit rn' = []"
    by (auto simp: filter_empty_conv dest: wait_not_other)
  from Cons.IH [of "futures @ [i]" t3] obtain new where
    new: "submit_loop w jenv None rest (futures @ [i]) t3
            = (Inr (False, (futures @ [i]) @ map fst rest), t3 @ new)"
      "filter is_submit new = map (\<lambda>(i, fp). Submit i fp) rest"
      "\<forall>a\<in>set new. is_submit a \<or> is_wait a \<or> a = ReadStop False" by blast
  have step: "submit_loop w jenv None (item # rest) futures tr
                = submit_loop w jenv None rest (futures @ [i]) t3"
    unfolding it by (simp add: is_set_never t3_def t2_def log_def Let_def)
  show ?case
  proof (intro exI [of _ "[ReadStop False, Submit i fp] @ rn' @ new"] conjI)
    show "submit_loop w jenv None (item # rest) futures tr
            = (Inr (False, futures @ map fst (item # rest)),
               tr @ [ReadStop False, Submit i fp] @ rn' @ new)"
    proof -
      from step new(1) have e: "submit_loop w jenv None (item # rest) futures tr
          = (Inr (False, (futures @ [i]) @ map fst rest), t3 @ new)" by (rule trans)
      have m: "futures @ map fst (item # rest) = (futures @ [i]) @ map fst rest"
        using it by simp
      show ?thesis unfolding m using e by (simp add: t3 t2_def)
    qed
    show "filter is_submit ([ReadStop False, Submit i fp] @ rn' @ new)
            = map (\<lambda>(i, fp). Submit i fp) (item # rest)"
      using fr new(2) it by simp
    show "\<forall>a\<in>set ([ReadStop False, Submit i fp] @ rn' @ new).
            is_submit a \<or> is_wait a \<or> a = ReadStop False"
      using rn' new(3) by auto
  qed
qed


lemma prelude_step:
  "can_start w jenv \<Longrightarrow>
     (if dir_exists jenv then (Inr (), [])
      else (case makedirs_error jenv of
              None \<Rightarrow> (Inr (), log (MakeDirs (output_dir w)) [])
            | Some e \<Rightarrow> (Inl e, []))) = (Inr (), prelude w jenv)"
  by (auto simp: can_start_def prelude_def log_def)

lemma prelude_actions: "a \<in> set (prelude w jenv) \<Longrightarrow> a = MakeDirs (output_dir w)"
  by (auto simp: prelude_def split: if_splits)

text \<open>A job that can start and whose stop event is never set: the \<open>try\<close> block submits
  every item, waits until every task is done, and is left without an exception.\<close>

lemma run_try_never:
  assumes "can_start w jenv"
  shows "\<exists>mid. run_try w jenv None [] = ((None, False, True), prelude w jenv @ mid)
           \<and> filter is_submit mid = submissions w
           \<and> (\<forall>a\<in>set mid. is_submit a \<or> is_wait a \<or> a = ReadStop False)
           \<and> (\<forall>i<length (files w). PollDone i True \<in> set mid)"
proof -
  define t0 where "t0 = prelude w jenv"
  define N where "N = length (files w)"
  from submit_loop_never [of w jenv "zip [0 ..< N] (files w)" "[]" t0]
  obtain new where
    new: "submit_loop w jenv None (zip [0 ..< N] (files w)) [] t0
            = (Inr (False, map fst (zip [0 ..< N] (files w))), t0 @ new)"
      "filter is_submit new = map (\<lambda>(i, fp). Submit i fp) (zip [0 ..< N] (files w))"
      "\<forall>a\<in>set new. is_submit a \<or> is_wait a \<or> a = ReadStop False" by auto
  have fs: "map fst (zip [0 ..< N] (files w)) = [0 ..< N]"
    unfolding N_def by (simp del: upt.simps)
  define t3 where "t3 = t0 @ new @ [ReadStop False]"
  obtain p t4 where dr: "drain jenv None [0 ..< N] t3 = (p, t4)"
    by (cases "drain jenv None [0 ..< N] t3")
  from grows_never [OF grows_drain [OF dr grows_refl] refl]
  obtain dn where dn: "t4 = t3 @ dn" "\<forall>a\<in>set dn. is_wait a \<or> a = ReadStop False" by blast
  define mid where "mid = new @ [ReadStop False] @ dn @ [ReadStop False]"
  have t4: "t4 @ [ReadStop False] = t0 @ mid"
    unfolding mid_def dn(1) t3_def by simp
  have all: "\<forall>a\<in>set mid. is_submit a \<or> is_wait a \<or> a = ReadStop False"
    unfolding mid_def using new(3) dn(2) by auto
  have nrt: "ReadStop True \<notin> set t4"
  proof
    assume "ReadStop True \<in> set t4"
    then have "ReadStop True \<in> set (t0 @ mid)" unfolding t4 [symmetric] by simp
    then consider "ReadStop True \<in> set t0" | "ReadStop True \<in> set mid" by auto
    then show False
    proof cases
      case 1
      then show False unfolding t0_def by (auto dest: prelude_actions)
    next
      case 2
      with all show False by auto
    qed
  qed
  from drain_done [OF dr] nrt have p: "p = []"
    and pd: "\<forall>i\<in>set [0 ..< N]. i \<in> set p \<or> PollDone i True \<in> set t4" by auto
  have polled: "\<forall>i<length (files w). PollDone i True \<in> set mid"
  proof (intro allI impI)
    fix i assume "i < length (files w)"
    with pd p have "PollDone i True \<in> set t4" by (simp add: N_def)
    then have "PollDone i True \<in> set (t0 @ mid)" unfolding t4 [symmetric] by simp
    then show "PollDone i True \<in> set mid"
      unfolding t0_def by (auto dest: prelude_actions)
  qed
  have "run_try w jenv None [] = ((None, False, True), t4 @ [ReadStop False])"
    using assms new(1) dr p
    by (simp add: run_try_def prelude_step t0_def [symmetric] N_def [symmetric] fs
          is_set_never t3_def can_start_def del: upt.simps)
  then have "run_try w jenv None [] = ((None, False, True), prelude w jenv @ mid)"
    unfolding t4 t0_def .
  with new(2) all polled show ?thesis
    unfolding submissions_def N_def [symmetric] mid_def
    using dn(2) by (intro exI [of _ mid]) (auto simp: mid_def filter_empty_conv dest: wait_not_other)
qed


lemma run_never:
  assumes "can_start w jenv" "worker_token w sched = None"
  shows "\<exists>mid. run w jenv sched [] = prelude w jenv @ mid @ [Shutdown, ReadStop False, Finished]
           \<and> filter is_submit mid = submissions w
           \<and> (\<forall>a\<in>set mid. is_submit a \<or> is_wait a \<or> a = ReadStop False)
           \<and> (\<forall>i<length (files w). PollDone i True \<in> set mid)"
proof -
  from run_try_never [OF assms(1)] obtain mid where
    mid: "run_try w jenv None [] = ((None, False, True), prelude w jenv @ mid)"
      "filter is_submit mid = submissions w"
      "\<forall>a\<in>set mid. is_submit a \<or> is_wait a \<or> a = ReadStop False"
      "\<forall>i<length (files w). PollDone i True \<in> set mid" by blast
  have "run w jenv sched [] = prelude w jenv @ mid @ [Shutdown, ReadStop False, Finished]"
    by (simp add: run_def assms(2) mid(1) is_set_never log_def)
  with mid(2,3,4) show ?thesis by blast
qed

text \<open>A job that can start and whose stop event is set when the submission loop first
  looks at it.\<close>

lemma run_stopped_early:
  assumes "can_start w jenv"
    and "tok_set_at (worker_token w sched) (length (prelude w jenv))"
  shows "run w jenv sched []
           = prelude w jenv
             @ (if files w = [] then [] else ReadStop True # stop_marks w [0 ..< length (files w)])
             @ [ReadStop True, Shutdown, Shutdown, Stopped]"
proof -
  define tok where "tok = worker_token w sched"
  define t0 where "t0 = prelude w jenv"
  define N where "N = length (files w)"
  have later: "is_set tok (t0 @ xs) = (True, t0 @ xs @ [ReadStop True])" for xs
  proof -
    have "tok_set_at tok (length (t0 @ xs))"
      by (rule tok_set_at_mono [OF assms(2) [folded tok_def t0_def]]) simp
    from is_set_when_set [OF this] show ?thesis by simp
  qed
  from later [of "[]"] have first: "is_set tok t0 = (True, t0 @ [ReadStop True])" by simp
  define ms where "ms = (if files w = [] then [] else ReadStop True # stop_marks w [0 ..< N])"
  have sl: "\<exists>ws fs. submit_loop w jenv tok (zip [0 ..< N] (files w)) [] t0
                      = (Inr (ws, fs), t0 @ ms)"
  proof (cases "files w")
    case Nil
    then show ?thesis by (auto simp: ms_def N_def)
  next
    case (Cons f fs)
    then have z: "zip [0 ..< N] (files w) = (0, f) # zip [Suc 0 ..< Suc (length fs)] fs"
      unfolding N_def using zip_enumerate_Cons [of f fs] by simp
    show ?thesis
      unfolding z using Cons
      by (auto simp: first mark_stopped_trace ms_def N_def simp del: upt.simps)
  qed
  then obtain ws fs where sl': "submit_loop w jenv tok (zip [0 ..< N] (files w)) [] t0
                      = (Inr (ws, fs), t0 @ ms)" by blast
  have rt: "run_try w jenv tok [] = ((None, True, True), t0 @ ms @ [ReadStop True, Shutdown])"
    using assms(1) sl' later [of ms]
    by (simp add: run_try_def prelude_step t0_def [symmetric] N_def [symmetric]
          slots_total log_def can_start_def del: upt.simps)
  show ?thesis
    by (simp add: run_def tok_def [symmetric] rt log_def t0_def ms_def N_def)
qed

lemma no_terminal_in_prelude [simp]:
  "filter is_terminal (prelude w jenv) = []" "filter is_submit (prelude w jenv) = []"
  "filter is_signal (prelude w jenv) = []"
  by (simp_all add: prelude_def)

text \<open>
  Claim C4 (as amended).  For a job that can start (its output directory exists or can
  be created, its pool has at least one thread) and whose stop event is set when the
  submission loop first looks at it: the run is exactly the creation of the directory
  (if needed), the look at the event, the two stop signals (status "terminated", result
  "stopped by the user") for the slot of every one of the \<open>N\<close> items in order, the
  second look, the two shutdowns of the executor and \<open>stopped\<close>.  So the signals of
  the run are the stop marks of all items, nothing is submitted (no pipeline runs, hence
  no call of the OCR client), and the only job-terminal event is \<open>stopped\<close>.
\<close>

theorem stop_before_submission:
  assumes "can_start w jenv"
    and "tok_set_at (worker_token w sched) (length (prelude w jenv))"
  shows "run w jenv sched []
           = prelude w jenv
             @ (if files w = [] then [] else ReadStop True # stop_marks w [0 ..< length (files w)])
             @ [ReadStop True, Shutdown, Shutdown, Stopped]
         \<and> filter is_signal (run w jenv sched []) = stop_marks w [0 ..< length (files w)]
         \<and> filter is_submit (run w jenv sched []) = []
         \<and> filter is_terminal (run w jenv sched []) = [Stopped]"
proof -
  note r = run_stopped_early [OF assms]
  have e: "files w = [] \<Longrightarrow> stop_marks w [0 ..< length (files w)] = []"
    by (simp add: stop_marks_def)
  show ?thesis
    unfolding r using e by (simp del: upt.simps)
qed

text \<open>
  The worker's part of a job that can start and whose stop event is never set: the run
  submits every item, in the order of the input, and nothing else; it sees every task
  done before it ends; it emits no per-item signal of its own (those come from the
  pipelines); and its only job-terminal event is \<open>finished\<close>, its last action.
\<close>

lemma run_never_summary:
  assumes "can_start w jenv" "worker_token w sched = None"
  shows "filter is_submit (run w jenv sched []) = submissions w
         \<and> (\<forall>i<length (files w). PollDone i True \<in> set (run w jenv sched []))
         \<and> filter is_signal (run w jenv sched []) = []
         \<and> filter is_terminal (run w jenv sched []) = [Finished]
         \<and> last (run w jenv sched []) = Finished"
proof -
  from run_never [OF assms] obtain mid where
    mid: "run w jenv sched [] = prelude w jenv @ mid @ [Shutdown, ReadStop False, Finished]"
      "filter is_submit mid = submissions w"
      "\<forall>a\<in>set mid. is_submit a \<or> is_wait a \<or> a = ReadStop False"
      "\<forall>i<length (files w). PollDone i True \<in> set mid" by blast
  have q: "\<not> is_signal a \<and> \<not> is_terminal a"
    if "is_submit a \<or> is_wait a \<or> a = ReadStop False" for a
    using that by (cases a) (auto simp: is_submit_def is_wait_def)
  from mid(3) q have f: "filter is_signal mid = []" "filter is_terminal mid = []"
    by (auto simp: filter_empty_conv)
  show ?thesis
    unfolding mid(1) using mid(2,4) f by simp
qed


lemma demo_worker_fields:
  "files (demo_worker fmt) = [asc ''in/a.png'', asc ''in/a.jpg'']"
  "row_indices (demo_worker fmt) = [0, 1]"
  "max_workers (demo_worker fmt) = 2"
  "stop_event (demo_worker fmt) = False"
  "output_dir (demo_worker fmt) = asc ''out''"
  by (simp_all add: demo_worker_def BatchWorker_init_def upt_rec)

theorem stop_before_submission_witness:
  "can_start (BatchWorker_stop (demo_worker (asc ''txt''))) jenv_ready
   \<and> tok_set_at (worker_token (BatchWorker_stop (demo_worker (asc ''txt''))) None)
        (length (prelude (BatchWorker_stop (demo_worker (asc ''txt''))) jenv_ready))
   \<and> run (BatchWorker_stop (demo_worker (asc ''txt''))) jenv_ready None []
       = [ReadStop True,
          StatusUpdate 0 st_terminated, ResultUpdate 0 msg_user_stopped,
          StatusUpdate 1 st_terminated, ResultUpdate 1 msg_user_stopped,
          ReadStop True, Shutdown, Shutdown, Stopped]"
  using stop_before_submission [of "BatchWorker_stop (demo_worker (asc ''txt''))" jenv_ready None]
  by (simp add: can_start_def prelude_def jenv_ready_def BatchWorker_stop_def demo_worker_fields
        worker_token_def tok_set_at_def stop_marks_def slot_of_def upt_rec)

text \<open>
  Without the amendment the claim fails: \<open>stop()\<close> was called before the run, and the
  output directory cannot be created.  The \<open>try\<close> block is left before the submission
  loop, neither of the two items is marked, and the run ends with \<open>stopped\<close>.
\<close>

theorem stop_before_submission_counterexample:
  "tok_set_at (worker_token (BatchWorker_stop (demo_worker (asc ''txt''))) None) 0
   \<and> length (files (BatchWorker_stop (demo_worker (asc ''txt'')))) = 2
   \<and> run (BatchWorker_stop (demo_worker (asc ''txt''))) jenv_no_dir None []
       = [PrintFatal, ReadStop True, Stopped]"
  by (simp add: run_def run_try_def jenv_no_dir_def BatchWorker_stop_def demo_worker_fields
        worker_token_def tok_set_at_def is_set_def log_def)

section \<open>The per-item pipeline\<close>

lemma check_stop_grows:
  "check_stop (Some tok) tr = (b, tr1) \<Longrightarrow> grows P tok tr0 tr \<Longrightarrow> grows P tok tr0 tr1"
  by (auto simp: check_stop_def intro: grows_is_set)

lemma attempt_body_grows:
  assumes "attempt_body env net ft (Some tok) k tr = (res, tr1)"
    and "grows is_net_action tok tr0 tr"
  shows "grows is_net_action tok tr0 tr1"
proof -
  obtain b1 t1 where c1: "check_stop (Some tok) tr = (b1, t1)"
    by (cases "check_stop (Some tok) tr")
  note g1 = check_stop_grows [OF c1 assms(2)]
  have g2: "grows is_net_action tok tr0 (log (HttpPost k ft) t1)"
    by (rule grows_log [OF g1]) simp
  obtain b2 t3 where c2: "check_stop (Some tok) (log (HttpPost k ft) t1) = (b2, t3)"
    by (cases "check_stop (Some tok) (log (HttpPost k ft) t1)")
  note g3 = check_stop_grows [OF c2 g2]
  have "tr1 = t1 \<or> tr1 = log (HttpPost k ft) t1 \<or> tr1 = t3"
    using assms(1) c1 c2 by (auto simp: attempt_body_def Let_def split: sum.splits if_splits)
  with g1 g2 g3 show ?thesis by auto
qed

lemma ocr_attempts_grows:
  "grows is_net_action tok tr0 tr \<Longrightarrow>
     grows is_net_action tok tr0 (snd (ocr_attempts env net ft (Some tok) atts le tr))"
proof (induction atts arbitrary: le tr)
  case Nil
  then show ?case by simp
next
  case (Cons a atts)
  obtain res t1 where ab: "attempt_body env net ft (Some tok) a tr = (res, t1)"
    by (cases "attempt_body env net ft (Some tok) a tr")
  note g1 = attempt_body_grows [OF ab Cons.prems]
  show ?case
  proof (cases res)
    case (Inr r)
    with ab g1 show ?thesis by simp
  next
    case (Inl e)
    obtain b t2 where cs: "check_stop (Some tok) t1 = (b, t2)"
      by (cases "check_stop (Some tok) t1")
    note g2 = check_stop_grows [OF cs g1]
    have s1: "grows is_net_action tok tr0 (if a < max_retries then log (Sleep 10) t1 else t1)"
      using g1 by (auto intro: grows_log)
    have s2: "grows is_net_action tok tr0 (if a < max_retries then log (Sleep 10) t2 else t2)"
      using g2 by (auto intro: grows_log)
    show ?thesis
    proof (cases e)
      case Timeout
      from Cons.IH [OF s1, of "Some msg_timeout"] ab Inl Timeout show ?thesis by simp
    next
      case (ConnectionError m)
      from Cons.IH [OF s2, of "Some (msg_connection @ take 80 m)"] ab Inl ConnectionError cs g2
      show ?thesis by (cases b) simp_all
    qed (use ab Inl cs g2 in \<open>cases b; simp\<close>)+
  qed
qed

lemma ocr_file_grows:
  "grows is_net_action tok tr (snd (ocr_file env cfg net fd ft mo (Some tok) tr))"
proof -
  obtain b t1 where cs: "check_stop (Some tok) tr = (b, t1)"
    by (cases "check_stop (Some tok) tr")
  note g1 = check_stop_grows [OF cs grows_refl]
  note g2 = ocr_attempts_grows [OF g1, of env net ft "[0 ..< max_retries + 1]" None]
  show ?thesis
    using cs g1 g2 by (simp add: ocr_file_def Let_def del: upt_Suc upt.simps ocr_attempts.simps)
qed

lemma ocr_file_returns: "\<exists>r. fst (ocr_file env cfg net fd ft mo ev tr) = Inr r"
proof -
  obtain b t1 where cs: "check_stop ev tr = (b, t1)" by (cases "check_stop ev tr")
  from ocr_attempts_result [of env net ft ev "[0 ..< max_retries + 1]" None t1]
  obtain r where "fst (ocr_attempts env net ft ev [0 ..< max_retries + 1] None t1) = Inr r"
    by blast
  then show ?thesis
    using cs by (simp add: ocr_file_def Let_def del: upt_Suc upt.simps ocr_attempts.simps)
qed

lemma net_action_not_signal: "is_net_action a \<Longrightarrow> \<not> is_signal a"
  by (cases a) (simp_all add: is_net_action_def)

text \<open>The client called with an event that is never set: no signal.\<close>

lemma ocr_file_never:
  "\<exists>r on. ocr_file env cfg net fd ft mo (Some None) tr = (Inr r, tr @ on)
          \<and> filter is_signal on = []"
proof -
  from grows_never [OF ocr_file_grows [of None tr env cfg net fd ft mo] refl]
  obtain on where on: "snd (ocr_file env cfg net fd ft mo (Some None) tr) = tr @ on"
    "\<forall>a\<in>set on. is_net_action a \<or> a = ReadStop False" by blast
  from ocr_file_returns obtain r where
    r: "fst (ocr_file env cfg net fd ft mo (Some None) tr) = Inr r" by blast
  from on(2) have "filter is_signal on = []"
    by (auto simp: filter_empty_conv dest: net_action_not_signal)
  moreover from r on(1) have "ocr_file env cfg net fd ft mo (Some None) tr = (Inr r, tr @ on)"
    by (simp add: prod_eq_iff)
  ultimately show ?thesis by blast
qed

lemma save_results_quiet:
  "\<exists>m q. save_results env xenv w fp tx md tabs lay raw tr = (Inr m, tr @ q)
         \<and> filter is_signal q = []"
proof -
  from save_results_cases [of env xenv w fp tx md tabs lay raw tr]
  consider (wrote) m ext where
      "save_results env xenv w fp tx md tabs lay raw tr
         = (Inr m, tr @ [WriteFile (out_path w fp ext)])"
    | (failed) m where "save_results env xenv w fp tx md tabs lay raw tr = (Inr m, tr)"
    by blast
  then show ?thesis
  proof cases
    case wrote
    then show ?thesis by (intro exI [of _ m] exI [of _ "[WriteFile (out_path w fp ext)]"]) simp
  next
    case failed
    then show ?thesis by (intro exI [of _ m] exI [of _ "[]"]) simp
  qed
qed

lemma emit_terminal_trace:
  "emit_terminal row s m tr = tr @ [StatusUpdate row s, ProgressUpdate row 100 100, ResultUpdate row m]"
  by (simp add: emit_terminal_def log_def)


lemma terminal_statuses_mem [simp]:
  "st_success \<in> set terminal_statuses" "st_no_content \<in> set terminal_statuses"
  "st_failed \<in> set terminal_statuses" "st_error \<in> set terminal_statuses"
  by (simp_all add: terminal_statuses_def)

lemma st_error_distinct [simp]:
  "st_success \<noteq> st_error" "st_no_content \<noteq> st_error" "st_failed \<noteq> st_error"
  by (simp_all add: st_success_def st_no_content_def st_failed_def st_error_def)

text \<open>With the stop event never set, the response is delivered with one terminal update.\<close>

lemma deliver_never:
  "\<exists>s m q. s \<in> set terminal_statuses \<and> s \<noteq> st_error
      \<and> deliver env xenv w None index row fp res tr
          = (Inr (index, row, Some s, m),
             tr @ q @ [StatusUpdate row s, ProgressUpdate row 100 100, ResultUpdate row m])
      \<and> filter is_signal q = []"
proof -
  have fin: "\<exists>s m q. s \<in> set terminal_statuses \<and> s \<noteq> st_error
      \<and> X = (Inr (index, row, Some s, m),
             tr @ q @ [StatusUpdate row s, ProgressUpdate row 100 100, ResultUpdate row m])
      \<and> filter is_signal q = []"
    if "X = (Inr (index, row, Some s0, m0),
             tr @ q0 @ [StatusUpdate row s0, ProgressUpdate row 100 100, ResultUpdate row m0])"
      "s0 \<in> set terminal_statuses" "s0 \<noteq> st_error" "filter is_signal q0 = []"
    for X s0 m0 q0
    using that by blast
  show ?thesis
  proof (cases res)
    case (ErrorResp err raw)
    define err_msg where
      "err_msg = err @ (case raw of None \<Rightarrow> [] | Some r \<Rightarrow> [10] @ take 200 r @ asc ''...'')"
    have "deliver env xenv w None index row fp res tr
          = (Inr (index, row, Some st_failed, err_msg),
             tr @ [ReadStop False]
                @ [StatusUpdate row st_failed, ProgressUpdate row 100 100,
                   ResultUpdate row err_msg])"
      by (simp add: deliver_def ErrorResp is_set_never emit_terminal_trace Let_def
            err_msg_def [symmetric])
    then show ?thesis
      by (rule fin) simp_all
  next
    case (EmptyResp d raw)
    show ?thesis
      by (rule fin [of _ st_no_content _ "[ReadStop False]"])
         (simp_all add: deliver_def EmptyResp is_set_never emit_terminal_trace)
  next
    case (ResultResp ls md tabs lay raw)
    define full_text where
      "full_text = (if text_lines_of ls \<noteq> [] then join [10] (text_lines_of ls) else md)"
    show ?thesis
    proof (cases "full_text \<noteq> [] \<or> tabs \<noteq> []")
      case True
      from save_results_quiet [of env xenv w fp full_text md tabs lay raw tr]
      obtain m q where sr: "save_results env xenv w fp full_text md tabs lay raw tr = (Inr m, tr @ q)"
        "filter is_signal q = []" by blast
      have "deliver env xenv w None index row fp res tr
          = (Inr (index, row, Some st_success, m),
             tr @ (q @ [ReadStop False])
                @ [StatusUpdate row st_success, ProgressUpdate row 100 100, ResultUpdate row m])"
        using True sr(1)
        by (simp add: deliver_def ResultResp full_text_def [symmetric] is_set_never
              emit_terminal_trace Let_def)
      then show ?thesis
        by (rule fin) (simp_all add: sr(2))
    next
      case False
      have "deliver env xenv w None index row fp res tr
          = (Inr (index, row, Some st_no_content, msg_no_text),
             tr @ [ReadStop False]
                @ [StatusUpdate row st_no_content, ProgressUpdate row 100 100,
                   ResultUpdate row msg_no_text])"
        using False
        by (simp add: deliver_def ResultResp full_text_def [symmetric] is_set_never
              emit_terminal_trace Let_def)
      then show ?thesis
        by (rule fin) simp_all
    qed
  qed
qed

text \<open>
  A pipeline whose stop event is never set returns a terminal status, and its signals
  are the two of "processing" and the three of one terminal update, the last of them
  the result.
\<close>

lemma pipeline_never:
  "\<exists>s m r new. s \<in> set terminal_statuses
      \<and> process_single_file env cfg tenv w None i fp tr
          = (Inr (i, slot_of w i, Some s, r), tr @ new)
      \<and> filter is_signal new
          = [StatusUpdate (slot_of w i) msg_processing, ProgressUpdate (slot_of w i) 50 100,
             StatusUpdate (slot_of w i) s, ProgressUpdate (slot_of w i) 100 100,
             ResultUpdate (slot_of w i) m]
      \<and> last new = ResultUpdate (slot_of w i) m
      \<and> m = (if s = st_error then take 100 r else r)"
proof -
  define row where "row = slot_of w i"
  define t4 where "t4 = tr @ [ReadStop False, ReadStop False, StatusUpdate row msg_processing,
                               ProgressUpdate row 50 100, ReadStop False, ReadFile fp]"
  have fin: "\<exists>s m r new. s \<in> set terminal_statuses
      \<and> X = (Inr (i, row, Some s, r), tr @ new)
      \<and> filter is_signal new
          = [StatusUpdate row msg_processing, ProgressUpdate row 50 100,
             StatusUpdate row s, ProgressUpdate row 100 100, ResultUpdate row m]
      \<and> last new = ResultUpdate row m
      \<and> m = (if s = st_error then take 100 r else r)"
    if "X = (Inr (i, row, Some s0, r0),
             t4 @ q0 @ [StatusUpdate row s0, ProgressUpdate row 100 100, ResultUpdate row m0])"
      "s0 \<in> set terminal_statuses" "filter is_signal q0 = []"
      "m0 = (if s0 = st_error then take 100 r0 else r0)"
    for X s0 m0 r0 q0
    apply (rule exI [of _ s0], rule exI [of _ m0], rule exI [of _ r0])
    apply (rule exI [of _ "[ReadStop False, ReadStop False, StatusUpdate row msg_processing,
                               ProgressUpdate row 50 100, ReadStop False, ReadFile fp]
                            @ q0 @ [StatusUpdate row s0, ProgressUpdate row 100 100,
                                    ResultUpdate row m0]"])
    using that by (simp add: t4_def)
  have body: "pipeline_body env cfg tenv w None i row fp (tr @ [ReadStop False])
      = (case file_read tenv of
           Inl e \<Rightarrow> (Inl e, t4)
         | Inr file_bytes \<Rightarrow>
             (case ocr_file env cfg (task_net tenv) file_bytes (file_type_of env fp)
                     (model_override w) (Some None) (t4 @ [ReadStop False]) of
                (Inl e, tr6) \<Rightarrow> (Inl e, tr6)
              | (Inr res, tr6) \<Rightarrow>
                  deliver env (task_xenv tenv) w None i row fp res (tr6 @ [ReadStop False])))"
    by (simp add: pipeline_body_def is_set_never log_def t4_def Let_def
          split: sum.splits prod.splits)
  have psf: "process_single_file env cfg tenv w None i fp tr
      = (case pipeline_body env cfg tenv w None i row fp (tr @ [ReadStop False]) of
           (Inr r, tr2) \<Rightarrow> (Inr r, tr2)
         | (Inl e, tr2) \<Rightarrow>
             (Inr (i, row, Some st_error, str_exn env e),
              tr2 @ [ReadStop False, StatusUpdate row st_error, ProgressUpdate row 100 100,
                     ResultUpdate row (take 100 (str_exn env e))]))"
    by (simp add: process_single_file_def row_index_slot row_def is_set_never
          emit_terminal_trace split: sum.splits prod.splits)
  have "\<exists>s m r new. s \<in> set terminal_statuses
      \<and> process_single_file env cfg tenv w None i fp tr = (Inr (i, row, Some s, r), tr @ new)
      \<and> filter is_signal new
          = [StatusUpdate row msg_processing, ProgressUpdate row 50 100,
             StatusUpdate row s, ProgressUpdate row 100 100, ResultUpdate row m]
      \<and> last new = ResultUpdate row m
      \<and> m = (if s = st_error then take 100 r else r)"
  proof (cases "file_read tenv")
    case (Inl e)
    have "process_single_file env cfg tenv w None i fp tr
        = (Inr (i, row, Some st_error, str_exn env e),
           t4 @ [ReadStop False]
              @ [StatusUpdate row st_error, ProgressUpdate row 100 100,
                 ResultUpdate row (take 100 (str_exn env e))])"
      by (simp add: psf body Inl)
    then show ?thesis
      by (rule fin) simp_all
  next
    case (Inr file_bytes)
    from ocr_file_never [of env cfg "task_net tenv" file_bytes "file_type_of env fp"
        "model_override w" "t4 @ [ReadStop False]"]
    obtain res on where oc: "ocr_file env cfg (task_net tenv) file_bytes (file_type_of env fp)
                     (model_override w) (Some None) (t4 @ [ReadStop False])
                 = (Inr res, (t4 @ [ReadStop False]) @ on)" "filter is_signal on = []"
      by blast
    from deliver_never [of env "task_xenv tenv" w i row fp res
        "((t4 @ [ReadStop False]) @ on) @ [ReadStop False]"]
    obtain s m q where d: "s \<in> set terminal_statuses" "s \<noteq> st_error"
      "deliver env (task_xenv tenv) w None i row fp res
           (((t4 @ [ReadStop False]) @ on) @ [ReadStop False])
         = (Inr (i, row, Some s, m),
            (((t4 @ [ReadStop False]) @ on) @ [ReadStop False]) @ q
              @ [StatusUpdate row s, ProgressUpdate row 100 100, ResultUpdate row m])"
      "filter is_signal q = []" by blast
    have "process_single_file env cfg tenv w None i fp tr
        = (Inr (i, row, Some s, m),
           t4 @ ([ReadStop False] @ on @ [ReadStop False] @ q)
              @ [StatusUpdate row s, ProgressUpdate row 100 100, ResultUpdate row m])"
    proof -
      from d(3) have d': "deliver env (task_xenv tenv) w None i row fp res
           (t4 @ ReadStop False # on @ [ReadStop False])
         = (Inr (i, row, Some s, m),
            t4 @ ReadStop False # on @ ReadStop False # q
              @ [StatusUpdate row s, ProgressUpdate row 100 100, ResultUpdate row m])"
        by simp
      show ?thesis by (simp add: psf body Inr oc(1) d')
    qed
    then show ?thesis
      by (rule fin) (simp_all add: d oc(2))
  qed
  then show ?thesis unfolding row_def .
qed


text \<open>
  Claim C3 (as amended).  For a job with \<open>N\<close> inputs that can start (its output
  directory exists or can be created, its pool has at least one thread) and whose stop
  event is never set: the worker submits every one of the \<open>N\<close> items, in the order of
  the input, and sees every task done before it ends; it emits no per-item signal of its
  own, exactly one job-terminal event, \<open>finished\<close>, as its last action, and no
  \<open>stopped\<close>.  The pipeline of every item, whatever it meets (file, network, export),
  returns a terminal status (success, no content, failed or error) and emits, after the
  two signals of "processing", exactly one terminal update: that status, the progress
  100/100 and the result message, which is the result returned (cut to 100 characters
  for the status error).
\<close>

theorem never_cancelled_job:
  assumes "can_start w jenv" and "worker_token w sched = None"
  shows "filter is_submit (run w jenv sched []) = submissions w
         \<and> (\<forall>i<length (files w). PollDone i True \<in> set (run w jenv sched []))
         \<and> filter is_signal (run w jenv sched []) = []
         \<and> filter is_terminal (run w jenv sched []) = [Finished]
         \<and> last (run w jenv sched []) = Finished
         \<and> (\<forall>i<length (files w).
              \<exists>s m r new. s \<in> set terminal_statuses
                \<and> process_single_file env cfg (tenvs i) w (worker_token w sched) i (files w ! i) []
                    = (Inr (i, slot_of w i, Some s, r), new)
                \<and> filter is_signal new
                    = [StatusUpdate (slot_of w i) msg_processing,
                       ProgressUpdate (slot_of w i) 50 100,
                       StatusUpdate (slot_of w i) s, ProgressUpdate (slot_of w i) 100 100,
                       ResultUpdate (slot_of w i) m]
                \<and> last new = ResultUpdate (slot_of w i) m
                \<and> m = (if s = st_error then take 100 r else r))"
proof -
  note r = run_never_summary [OF assms]
  have p: "\<exists>s m r new. s \<in> set terminal_statuses
                \<and> process_single_file env cfg (tenvs i) w (worker_token w sched) i (files w ! i) []
                    = (Inr (i, slot_of w i, Some s, r), new)
                \<and> filter is_signal new
                    = [StatusUpdate (slot_of w i) msg_processing,
                       ProgressUpdate (slot_of w i) 50 100,
                       StatusUpdate (slot_of w i) s, ProgressUpdate (slot_of w i) 100 100,
                       ResultUpdate (slot_of w i) m]
                \<and> last new = ResultUpdate (slot_of w i) m
                \<and> m = (if s = st_error then take 100 r else r)" for i
    using pipeline_never [of env cfg "tenvs i" w i "files w ! i" "[]"]
    unfolding assms(2) by simp
  from r p show ?thesis by blast
qed

lemma demo_row_0: "row_index (demo_worker fmt) 0 = Inr 0"
  by (simp add: row_index_slot slot_of_def demo_worker_fields)

lemma demo_save_txt_at:
  "save_results demo_env xenv_ok (demo_worker (asc ''txt'')) fp tx md tabs lay raw tr
     = (Inr (exported fp (asc ''txt'')),
        tr @ [WriteFile (out_path (demo_worker (asc ''txt'')) fp (asc ''txt''))])"
  by (simp add: save_results_def export_body_def Let_def demo_kinds write_then_cases
        xenv_ok_def)

lemma demo_ocr_ok:
  "ocr_file demo_env demo_config net_ok fb ft None (Some None) tr
     = (Inr demo_result, tr @ [ReadStop False, ReadStop False, HttpPost 0 ft, ReadStop False])"
proof -
  have nc: "not_cancelled (Some None)" by (simp add: not_cancelled_def)
  have ab: "attempt_body demo_env net_ok ft (Some None) 0 (tr @ [ReadStop False])
              = (Inr demo_result,
                 tr @ [ReadStop False, ReadStop False, HttpPost 0 ft, ReadStop False])"
    by (simp add: attempt_body_nc [OF nc] net_ok_def demo_handle_ok reads_def)
  show ?thesis
    by (simp add: ocr_file_configured [OF cfg_ok] check_stop_def is_set_never
          attempts_returns [OF ab] del: ocr_attempts.simps)
qed

lemma demo_file_type: "file_type_of demo_env (asc ''in/a.png'') = 1"
  by (simp add: file_type_of_def is_document_def splitext_def rfind_def demo_env_def asc_def
        Let_def)

lemma demo_pipeline_success:
  "process_single_file demo_env demo_config tenv_ok (demo_worker (asc ''txt'')) None 0
       (asc ''in/a.png'') []
     = (Inr (0, 0, Some st_success, exported (asc ''in/a.png'') (asc ''txt'')),
        [ReadStop False, ReadStop False, StatusUpdate 0 msg_processing, ProgressUpdate 0 50 100,
         ReadStop False, ReadFile (asc ''in/a.png''), ReadStop False,
         ReadStop False, ReadStop False, HttpPost 0 1, ReadStop False,
         ReadStop False, WriteFile (asc ''out/a.txt''), ReadStop False,
         StatusUpdate 0 st_success, ProgressUpdate 0 100 100,
         ResultUpdate 0 (exported (asc ''in/a.png'') (asc ''txt''))])"
proof -
  have mo: "model_override (demo_worker (asc ''txt'')) = None"
    by (simp add: demo_worker_def BatchWorker_init_def)
  have ft: "join [10] (text_lines_of [JStr (asc ''hi'')]) = asc ''hi''"
    by simp
  have ne: "asc ''hi'' \<noteq> []" by (simp add: asc_def)
  have d: "deliver demo_env xenv_ok (demo_worker (asc ''txt'')) None 0 0 (asc ''in/a.png'')
             demo_result tr
           = (Inr (0, 0, Some st_success, exported (asc ''in/a.png'') (asc ''txt'')),
              tr @ [WriteFile (asc ''out/a.txt''), ReadStop False,
                    StatusUpdate 0 st_success, ProgressUpdate 0 100 100,
                    ResultUpdate 0 (exported (asc ''in/a.png'') (asc ''txt''))])" for tr
    by (simp add: deliver_def demo_result_def ft ne demo_save_txt_at demo_out_paths is_set_never
          emit_terminal_trace Let_def)
  show ?thesis
    by (simp add: process_single_file_def pipeline_body_def demo_row_0 is_set_never log_def
          tenv_ok_def mo demo_file_type demo_ocr_ok d emit_terminal_trace Let_def)
qed

theorem never_cancelled_job_witness:
  "can_start (demo_worker (asc ''txt'')) jenv_ready
   \<and> worker_token (demo_worker (asc ''txt'')) None = None
   \<and> filter is_submit (run (demo_worker (asc ''txt'')) jenv_ready None [])
       = [Submit 0 (asc ''in/a.png''), Submit 1 (asc ''in/a.jpg'')]
   \<and> filter is_terminal (run (demo_worker (asc ''txt'')) jenv_ready None []) = [Finished]
   \<and> process_single_file demo_env demo_config tenv_ok (demo_worker (asc ''txt'')) None 0
         (asc ''in/a.png'') []
       = (Inr (0, 0, Some st_success, exported (asc ''in/a.png'') (asc ''txt'')),
          [ReadStop False, ReadStop False, StatusUpdate 0 msg_processing, ProgressUpdate 0 50 100,
           ReadStop False, ReadFile (asc ''in/a.png''), ReadStop False,
           ReadStop False, ReadStop False, HttpPost 0 1, ReadStop False,
           ReadStop False, WriteFile (asc ''out/a.txt''), ReadStop False,
           StatusUpdate 0 st_success, ProgressUpdate 0 100 100,
           ResultUpdate 0 (exported (asc ''in/a.png'') (asc ''txt''))])"
proof -
  have h: "can_start (demo_worker (asc ''txt'')) jenv_ready"
    "worker_token (demo_worker (asc ''txt'')) None = None"
    by (simp_all add: can_start_def jenv_ready_def demo_worker_fields worker_token_def)
  have s: "submissions (demo_worker (asc ''txt''))
             = [Submit 0 (asc ''in/a.png''), Submit 1 (asc ''in/a.jpg'')]"
    by (simp add: submissions_def demo_worker_fields upt_rec)
  from never_cancelled_job [OF h, of demo_env demo_config "\<lambda>i. tenv_ok"] h s
  have "can_start (demo_worker (asc ''txt'')) jenv_ready
   \<and> worker_token (demo_worker (asc ''txt'')) None = None
   \<and> filter is_submit (run (demo_worker (asc ''txt'')) jenv_ready None [])
       = [Submit 0 (asc ''in/a.png''), Submit 1 (asc ''in/a.jpg'')]
   \<and> filter is_terminal (run (demo_worker (asc ''txt'')) jenv_ready None []) = [Finished]"
    by simp
  with demo_pipeline_success show ?thesis by (intro conjI) simp_all
qed

text \<open>
  Without the amendment the claim fails: the stop event is never set, but the output
  directory cannot be created.  Neither of the two items is submitted, and the run
  still ends with \<open>finished\<close>.
\<close>

theorem never_cancelled_job_counterexample:
  "worker_token (demo_worker (asc ''txt'')) None = None
   \<and> length (files (demo_worker (asc ''txt''))) = 2
   \<and> run (demo_worker (asc ''txt'')) jenv_no_dir None [] = [PrintFatal, ReadStop False, Finished]"
  by (simp add: run_def run_try_def jenv_no_dir_def demo_worker_fields
        worker_token_def tok_set_at_def is_set_def log_def)

section \<open>The per-item pipeline once it has seen the stop event set\<close>

lemma after_seen_unseen: "ReadStop True \<notin> set xs \<Longrightarrow> after_seen (xs @ ys) = after_seen ys"
  unfolding after_seen_def by (induction xs) auto

lemma after_seen_seen: "ReadStop True \<in> set xs \<Longrightarrow> after_seen (xs @ ys) = after_seen xs @ ys"
  unfolding after_seen_def by (induction xs) auto

lemma quiet_unseen [simp]: "ReadStop True \<notin> set xs \<Longrightarrow> quiet_after_seen xs"
  unfolding quiet_after_seen_def after_seen_def by (induction xs) auto

lemma quiet_append_unseen:
  "ReadStop True \<notin> set xs \<Longrightarrow> quiet_after_seen ys \<Longrightarrow> quiet_after_seen (xs @ ys)"
  by (simp add: quiet_after_seen_def after_seen_unseen)

lemma quiet_append_look:
  "ReadStop True \<notin> set xs \<Longrightarrow> quiet_after_seen (xs @ [ReadStop b])"
proof -
  assume "ReadStop True \<notin> set xs"
  then have "after_seen (xs @ [ReadStop b]) = after_seen [ReadStop b]"
    by (rule after_seen_unseen)
  moreover have "list_all (\<lambda>a. a = ReadStop True) (after_seen [ReadStop b])"
    by (cases b) (simp_all add: after_seen_def)
  ultimately show ?thesis by (simp add: quiet_after_seen_def)
qed

lemma quiet_append_seen_look:
  "quiet_after_seen xs \<Longrightarrow> quiet_after_seen (xs @ [ReadStop True])"
proof (cases "ReadStop True \<in> set xs")
  case True
  assume "quiet_after_seen xs"
  with True show ?thesis by (simp add: quiet_after_seen_def after_seen_seen)
next
  case False
  then show ?thesis by (rule quiet_append_look)
qed

text \<open>A look that sees the event set on a trace grown by looks stays seen.\<close>

lemma grows_seen_new:
  "grows P tok tr tr1 \<Longrightarrow> \<not> P (ReadStop True) \<Longrightarrow>
     \<exists>new. tr1 = tr @ new \<and> (ReadStop True \<in> set new \<longrightarrow> tok_set_at tok (length tr1))"
proof (induction rule: grows.induct)
  case (grows_refl P tok tr)
  then show ?case by simp
next
  case (grows_log P tok tr tr1 a)
  then obtain new where "tr1 = tr @ new"
    "ReadStop True \<in> set new \<longrightarrow> tok_set_at tok (length tr1)" by blast
  with grows_log.hyps(2) grows_log.prems show ?case
    by (intro exI [of _ "new @ [a]"]) (auto simp: log_def intro: tok_set_at_mono)
next
  case (grows_read P tok tr tr1)
  then obtain new where "tr1 = tr @ new"
    "ReadStop True \<in> set new \<longrightarrow> tok_set_at tok (length tr1)" by blast
  then show ?case
    by (intro exI [of _ "new @ [ReadStop (tok_set_at tok (length tr1))]"])
       (auto simp: is_set_def Let_def log_def intro: tok_set_at_mono)
qed

lemma check_stop_some: "check_stop (Some tok) tr = (b, tr1) \<Longrightarrow> tr1 = tr @ [ReadStop b]"
  by (auto simp: check_stop_def is_set_def Let_def log_def)

text \<open>One attempt: nothing but looks after the event was seen set, and no exception then.\<close>

lemma attempt_body_seen:
  assumes "attempt_body env net ft (Some tok) k tr = (res, tr1)"
  shows "\<exists>n1. tr1 = tr @ n1 \<and> quiet_after_seen n1
           \<and> ((\<exists>e. res = Inl e) \<longrightarrow> ReadStop True \<notin> set n1)"
proof -
  obtain b1 t1 where c1: "check_stop (Some tok) tr = (b1, t1)"
    by (cases "check_stop (Some tok) tr")
  note t1 = check_stop_some [OF c1]
  obtain b2 t3 where c2: "check_stop (Some tok) (log (HttpPost k ft) t1) = (b2, t3)"
    by (cases "check_stop (Some tok) (log (HttpPost k ft) t1)")
  note t3 = check_stop_some [OF c2]
  show ?thesis
  proof (cases b1)
    case True
    with assms c1 t1 have "tr1 = tr @ [ReadStop True]" "res = Inr stopped_response"
      by (auto simp: attempt_body_def)
    then show ?thesis
      by (intro exI [of _ "[ReadStop True]"]) (simp add: quiet_after_seen_def after_seen_def)
  next
    case False
    show ?thesis
    proof (cases "net k")
      case (Inl e)
      with assms c1 t1 False have "tr1 = tr @ [ReadStop False, HttpPost k ft]"
        by (auto simp: attempt_body_def log_def)
      then show ?thesis
        by (intro exI [of _ "[ReadStop False, HttpPost k ft]"]) simp
    next
      case (Inr resp)
      show ?thesis
      proof (cases b2)
        case True
        with assms c1 c2 t1 t3 False Inr have
          "tr1 = tr @ [ReadStop False, HttpPost k ft, ReadStop True]" "res = Inr stopped_response"
          by (auto simp: attempt_body_def log_def)
        then show ?thesis
          by (intro exI [of _ "[ReadStop False, HttpPost k ft, ReadStop True]"])
             (simp add: quiet_after_seen_def after_seen_def)
      next
        case nb2: False
        with assms c1 c2 t1 t3 False Inr have
          "tr1 = tr @ [ReadStop False, HttpPost k ft, ReadStop False]"
          by (auto simp: attempt_body_def log_def)
        then show ?thesis
          by (intro exI [of _ "[ReadStop False, HttpPost k ft, ReadStop False]"]) simp
      qed
    qed
  qed
qed

lemma ocr_attempts_seen:
  "\<exists>new. snd (ocr_attempts env net ft (Some tok) atts le tr) = tr @ new \<and> quiet_after_seen new"
proof (induction atts arbitrary: le tr)
  case Nil
  then show ?case by simp
next
  case (Cons a atts)
  obtain res t1 where ab: "attempt_body env net ft (Some tok) a tr = (res, t1)"
    by (cases "attempt_body env net ft (Some tok) a tr")
  from attempt_body_seen [OF ab] obtain n1 where
    n1: "t1 = tr @ n1" "quiet_after_seen n1" "(\<exists>e. res = Inl e) \<longrightarrow> ReadStop True \<notin> set n1"
    by blast
  show ?case
  proof (cases res)
    case (Inr r)
    with ab n1 show ?thesis by simp
  next
    case (Inl e)
    with n1(3) have un: "ReadStop True \<notin> set n1" by blast
    obtain b t2 where cs: "check_stop (Some tok) t1 = (b, t2)"
      by (cases "check_stop (Some tok) t1")
    note t2 = check_stop_some [OF cs]
    define sl where "sl = (if a < max_retries then [Sleep 10] else [])"
    have sl: "(if a < max_retries then log (Sleep 10) t else t) = t @ sl" for t
      by (simp add: sl_def log_def)
    have stop: "quiet_after_seen (n1 @ [ReadStop b])"
      by (rule quiet_append_look [OF un])
    have cont: "\<exists>new. snd (ocr_attempts env net ft (Some tok) atts le' (tr @ pre)) = tr @ new
                  \<and> quiet_after_seen new"
      if "ReadStop True \<notin> set pre" for le' pre
    proof -
      from Cons.IH [of le' "tr @ pre"] obtain n2 where
        n2: "snd (ocr_attempts env net ft (Some tok) atts le' (tr @ pre)) = (tr @ pre) @ n2"
          "quiet_after_seen n2" by blast
      show ?thesis
        by (rule exI [of _ "pre @ n2"]) (simp add: n2 quiet_append_unseen [OF that])
    qed
    show ?thesis
    proof (cases e)
      case Timeout
      from cont [of "n1 @ sl" "Some msg_timeout"] un
      have "\<exists>new. snd (ocr_attempts env net ft (Some tok) atts (Some msg_timeout) (tr @ n1 @ sl))
                     = tr @ new \<and> quiet_after_seen new"
        by (simp add: sl_def)
      with ab Inl Timeout n1(1) show ?thesis by (simp add: sl)
    next
      case (ConnectionError m)
      show ?thesis
      proof (cases b)
        case True
        with ab Inl ConnectionError cs t2 n1(1) stop show ?thesis by simp
      next
        case False
        from cont [of "n1 @ [ReadStop False] @ sl" "Some (msg_connection @ take 80 m)"] un
        have "\<exists>new. snd (ocr_attempts env net ft (Some tok) atts
                            (Some (msg_connection @ take 80 m)) (tr @ n1 @ [ReadStop False] @ sl))
                     = tr @ new \<and> quiet_after_seen new"
          by (simp add: sl_def)
        with ab Inl ConnectionError cs t2 n1(1) False show ?thesis by (simp add: sl)
      qed
    qed (use ab Inl cs t2 n1(1) stop in \<open>cases b; simp\<close>)+
  qed
qed


lemma is_set_look: "is_set tok tr = (tok_set_at tok (length tr), tr @ [ReadStop (tok_set_at tok (length tr))])"
  by (simp add: is_set_def log_def Let_def)

text \<open>
  The client called with the worker's stop event: it returns a response, emits no
  signal, does nothing but look once it has seen the event set, and the event is then
  still set when it returns.
\<close>

lemma ocr_file_seen:
  "\<exists>r on. ocr_file env cfg net fd ft mo (Some tok) tr = (Inr r, tr @ on)
      \<and> quiet_after_seen on
      \<and> filter is_signal on = []
      \<and> (ReadStop True \<in> set on \<longrightarrow> tok_set_at tok (length (tr @ on)))"
proof -
  from ocr_file_returns obtain r where
    r: "fst (ocr_file env cfg net fd ft mo (Some tok) tr) = Inr r" by blast
  have nl: "\<not> is_net_action (ReadStop True)" by simp
  from grows_seen_new [OF ocr_file_grows [of tok tr env cfg net fd ft mo] nl]
  obtain on where on: "snd (ocr_file env cfg net fd ft mo (Some tok) tr) = tr @ on"
    "ReadStop True \<in> set on \<longrightarrow> tok_set_at tok (length (tr @ on))"
    by auto
  from grows_extends [OF ocr_file_grows [of tok tr env cfg net fd ft mo]] on(1)
  have "\<forall>a\<in>set on. is_net_action a \<or> (\<exists>b. a = ReadStop b)" by auto
  then have sg: "filter is_signal on = []"
    by (auto simp: filter_empty_conv dest: net_action_not_signal)
  have q: "quiet_after_seen on"
  proof -
    obtain b t1 where cs: "check_stop (Some tok) tr = (b, t1)"
      by (cases "check_stop (Some tok) tr")
    note t1 = check_stop_some [OF cs]
    define atts where "atts = [0 ..< Suc max_retries]"
    from ocr_attempts_seen [of env net ft tok atts None "tr @ [ReadStop False]"]
    obtain n where n: "snd (ocr_attempts env net ft (Some tok) atts None (tr @ [ReadStop False]))
                         = (tr @ [ReadStop False]) @ n"
      "quiet_after_seen n" by blast
    have qn: "quiet_after_seen ([ReadStop False] @ n)"
      by (rule quiet_append_unseen) (simp_all add: n(2))
    have "snd (ocr_file env cfg net fd ft mo (Some tok) tr) = tr @ [ReadStop True]
          \<or> snd (ocr_file env cfg net fd ft mo (Some tok) tr) = tr @ [ReadStop False]
          \<or> snd (ocr_file env cfg net fd ft mo (Some tok) tr)
              = snd (ocr_attempts env net ft (Some tok) atts None (tr @ [ReadStop False]))"
      using cs t1
      by (cases b) (simp_all add: ocr_file_def Let_def atts_def [symmetric]
            del: upt_Suc upt.simps ocr_attempts.simps)
    with on(1) n(1) have "on = [ReadStop True] \<or> on = [ReadStop False] \<or> on = [ReadStop False] @ n"
      by auto
    then show ?thesis
      using qn by (auto simp: quiet_after_seen_def after_seen_def)
  qed
  from r on(1) have "ocr_file env cfg net fd ft mo (Some tok) tr = (Inr r, tr @ on)"
    by (simp add: prod_eq_iff)
  with q sg on(2) show ?thesis by blast
qed

text \<open>The delivery of a response: the stop marker after a look that saw the event set,
  or a terminal status and no such look.\<close>

lemma deliver_seen:
  "\<exists>out dn. deliver env xenv w tok i row fp res tr = (Inr out, tr @ dn)
      \<and> ((out = stopped_return i row \<and> (\<exists>q. dn = q @ [ReadStop True] \<and> ReadStop True \<notin> set q))
         \<or> ((\<exists>s r. out = (i, row, Some s, r) \<and> s \<in> set terminal_statuses)
            \<and> ReadStop True \<notin> set dn))"
proof -
  have guarded: "\<exists>out dn. X = (Inr out, tr @ dn)
      \<and> ((out = stopped_return i row \<and> (\<exists>q. dn = q @ [ReadStop True] \<and> ReadStop True \<notin> set q))
         \<or> ((\<exists>s r. out = (i, row, Some s, r) \<and> s \<in> set terminal_statuses)
            \<and> ReadStop True \<notin> set dn))"
    if "X = (let (b, tr1) = is_set tok (tr @ q0)
             in if b then (Inr (stopped_return i row), tr1)
                else (Inr (i, row, Some s0, r0), emit_terminal row s0 m0 tr1))"
      "ReadStop True \<notin> set q0" "s0 \<in> set terminal_statuses"
    for X q0 s0 r0 m0
  proof (cases "tok_set_at tok (length (tr @ q0))")
    case True
    with that(1) have "X = (Inr (stopped_return i row), tr @ q0 @ [ReadStop True])"
      by (simp add: is_set_look)
    with that(2) show ?thesis by blast
  next
    case False
    with that(1) have "X = (Inr (i, row, Some s0, r0),
        tr @ (q0 @ [ReadStop False, StatusUpdate row s0, ProgressUpdate row 100 100,
                    ResultUpdate row m0]))"
      by (simp add: is_set_look emit_terminal_trace)
    moreover have "ReadStop True \<notin> set (q0 @ [ReadStop False, StatusUpdate row s0,
        ProgressUpdate row 100 100, ResultUpdate row m0])" using that(2) by simp
    ultimately show ?thesis using that(3) by blast
  qed
  show ?thesis
  proof (cases res)
    case (ErrorResp err raw)
    define err_msg where
      "err_msg = err @ (case raw of None \<Rightarrow> [] | Some r \<Rightarrow> [10] @ take 200 r @ asc ''...'')"
    have "deliver env xenv w tok i row fp res tr
        = (let (b, tr1) = is_set tok (tr @ [])
           in if b then (Inr (stopped_return i row), tr1)
              else (Inr (i, row, Some st_failed, err_msg),
                    emit_terminal row st_failed err_msg tr1))"
      by (simp add: deliver_def ErrorResp Let_def err_msg_def [symmetric] split: prod.splits)
    then show ?thesis
      by (rule guarded) simp_all
  next
    case (EmptyResp d raw)
    have "deliver env xenv w tok i row fp res tr
        = (let (b, tr1) = is_set tok (tr @ [])
           in if b then (Inr (stopped_return i row), tr1)
              else (Inr (i, row, Some st_no_content, msg_no_text),
                    emit_terminal row st_no_content msg_no_text tr1))"
      by (simp add: deliver_def EmptyResp Let_def)
    then show ?thesis
      by (rule guarded) simp_all
  next
    case (ResultResp ls md tabs lay raw)
    define full_text where
      "full_text = (if text_lines_of ls \<noteq> [] then join [10] (text_lines_of ls) else md)"
    show ?thesis
    proof (cases "full_text \<noteq> [] \<or> tabs \<noteq> []")
      case True
      from save_results_cases [of env xenv w fp full_text md tabs lay raw tr]
      obtain m q where sr: "save_results env xenv w fp full_text md tabs lay raw tr = (Inr m, tr @ q)"
        "ReadStop True \<notin> set q" by (elim disjE exE conjE) fastforce+
      have "deliver env xenv w tok i row fp res tr
          = (let (b, tr1) = is_set tok (tr @ q)
             in if b then (Inr (stopped_return i row), tr1)
                else (Inr (i, row, Some st_success, m), emit_terminal row st_success m tr1))"
        using True sr(1)
        by (simp add: deliver_def ResultResp Let_def full_text_def [symmetric])
      then show ?thesis
        by (rule guarded) (simp_all add: sr(2))
    next
      case False
      have "deliver env xenv w tok i row fp res tr
          = (let (b, tr1) = is_set tok (tr @ [])
             in if b then (Inr (stopped_return i row), tr1)
                else (Inr (i, row, Some st_no_content, msg_no_text),
                      emit_terminal row st_no_content msg_no_text tr1))"
        using False
        by (simp add: deliver_def ResultResp Let_def full_text_def [symmetric])
      then show ?thesis
        by (rule guarded) simp_all
    qed
  qed
qed


text \<open>The call of the client, the look that follows it, and the delivery.\<close>

lemma pipeline_tail_seen:
  "\<exists>out bn.
      (case ocr_file env cfg net fb ft mo (Some tok) tr of
         (Inl e, tr6) \<Rightarrow> (Inl e, tr6)
       | (Inr res, tr6) \<Rightarrow>
           (let (b5, tr7) = is_set tok tr6
            in if b5 then (Inr (stopped_return i row), tr7)
               else deliver env xenv w tok i row fp res tr7)) = (Inr out, tr @ bn)
      \<and> quiet_after_seen bn
      \<and> ((out = stopped_return i row \<and> ReadStop True \<in> set bn)
         \<or> ((\<exists>s r. out = (i, row, Some s, r) \<and> s \<in> set terminal_statuses)
            \<and> ReadStop True \<notin> set bn))"
proof -
  from ocr_file_seen [of env cfg net fb ft mo tok tr]
  obtain res on where oc: "ocr_file env cfg net fb ft mo (Some tok) tr = (Inr res, tr @ on)"
    "quiet_after_seen on"
    "ReadStop True \<in> set on \<longrightarrow> tok_set_at tok (length (tr @ on))" by blast
  show ?thesis
  proof (cases "tok_set_at tok (length (tr @ on))")
    case True
    have "quiet_after_seen (on @ [ReadStop True])"
      by (rule quiet_append_seen_look [OF oc(2)])
    then show ?thesis
      using True
      by (intro exI [of _ "stopped_return i row"] exI [of _ "on @ [ReadStop True]"])
         (simp add: oc(1) is_set_look)
  next
    case False
    with oc(3) have un: "ReadStop True \<notin> set on" by blast
    from deliver_seen [of env xenv w tok i row fp res "(tr @ on) @ [ReadStop False]"]
    obtain out dn where d:
      "deliver env xenv w tok i row fp res ((tr @ on) @ [ReadStop False])
         = (Inr out, ((tr @ on) @ [ReadStop False]) @ dn)"
      "(out = stopped_return i row
          \<and> (\<exists>q. dn = q @ [ReadStop True] \<and> ReadStop True \<notin> set q))
       \<or> ((\<exists>s r. out = (i, row, Some s, r) \<and> s \<in> set terminal_statuses)
          \<and> ReadStop True \<notin> set dn)" by blast
    have e: "(case ocr_file env cfg net fb ft mo (Some tok) tr of
         (Inl e, tr6) \<Rightarrow> (Inl e, tr6)
       | (Inr res, tr6) \<Rightarrow>
           (let (b5, tr7) = is_set tok tr6
            in if b5 then (Inr (stopped_return i row), tr7)
               else deliver env xenv w tok i row fp res tr7))
        = (Inr out, tr @ (on @ [ReadStop False] @ dn))"
      using False d(1) by (simp add: oc(1) is_set_look)
    from d(2) show ?thesis
    proof
      assume st: "out = stopped_return i row
          \<and> (\<exists>q. dn = q @ [ReadStop True] \<and> ReadStop True \<notin> set q)"
      then obtain q where q: "dn = q @ [ReadStop True]" "ReadStop True \<notin> set q" by blast
      have "quiet_after_seen ((on @ [ReadStop False] @ q) @ [ReadStop True])"
        by (rule quiet_append_look) (use un q(2) in simp)
      then have "quiet_after_seen (on @ [ReadStop False] @ dn)" by (simp add: q(1))
      with e st q(1) show ?thesis by (intro exI [of _ out] exI [of _ "on @ [ReadStop False] @ dn"]) simp
    next
      assume ok: "(\<exists>s r. out = (i, row, Some s, r) \<and> s \<in> set terminal_statuses)
          \<and> ReadStop True \<notin> set dn"
      with un have u: "ReadStop True \<notin> set (on @ [ReadStop False] @ dn)" by simp
      from quiet_unseen [OF u] e ok u show ?thesis
        by (intro exI [of _ out] exI [of _ "on @ [ReadStop False] @ dn"]) simp
    qed
  qed
qed

text \<open>The \<open>try\<close> block of the pipeline.\<close>

lemma pipeline_body_seen:
  "\<exists>out bn. pipeline_body env cfg tenv w tok i row fp tr = (out, tr @ bn)
     \<and> quiet_after_seen bn
     \<and> ((\<exists>e. out = Inl e) \<and> ReadStop True \<notin> set bn
        \<or> out = Inr (stopped_return i row) \<and> ReadStop True \<in> set bn
        \<or> (\<exists>s r. out = Inr (i, row, Some s, r) \<and> s \<in> set terminal_statuses)
            \<and> ReadStop True \<notin> set bn)"
proof -
  have later: "tok_set_at tok k" if "tok_set_at tok j" "j \<le> k" for j k
    using that by (rule tok_set_at_mono)
  have earlier: "\<not> tok_set_at tok j" if "\<not> tok_set_at tok k" "j \<le> k" for j k
    using that tok_set_at_mono by blast
  have fin: "\<exists>out bn. X = (out, tr @ bn)
     \<and> quiet_after_seen bn
     \<and> ((\<exists>e. out = Inl e) \<and> ReadStop True \<notin> set bn
        \<or> out = Inr (stopped_return i row) \<and> ReadStop True \<in> set bn
        \<or> (\<exists>s r. out = Inr (i, row, Some s, r) \<and> s \<in> set terminal_statuses)
            \<and> ReadStop True \<notin> set bn)"
    if "X = (o1, tr @ b1)" "quiet_after_seen b1"
      "(\<exists>e. o1 = Inl e) \<and> ReadStop True \<notin> set b1
        \<or> o1 = Inr (stopped_return i row) \<and> ReadStop True \<in> set b1
        \<or> (\<exists>s r. o1 = Inr (i, row, Some s, r) \<and> s \<in> set terminal_statuses)
            \<and> ReadStop True \<notin> set b1" for X o1 b1
    using that by blast
  show ?thesis
  proof (cases "tok_set_at tok (length tr)")
    case True
    note l = later [OF True]
    have "pipeline_body env cfg tenv w tok i row fp tr
            = (Inr (stopped_return i row), tr @ [ReadStop True, ReadStop True])"
      by (simp add: pipeline_body_def is_set_look l Let_def)
    then show ?thesis
      by (rule fin) (simp_all add: quiet_after_seen_def after_seen_def)
  next
    case F0: False
    note e0 = earlier [OF F0]
    show ?thesis
    proof (cases "tok_set_at tok (length tr + 3)")
      case True
      note l = later [OF True]
      have "pipeline_body env cfg tenv w tok i row fp tr
            = (Inr (stopped_return i row),
               tr @ [ReadStop False, StatusUpdate row msg_processing, ProgressUpdate row 50 100,
                     ReadStop True])"
        by (simp add: pipeline_body_def is_set_look e0 l Let_def log_def)
      then show ?thesis
        by (rule fin) (simp_all add: quiet_after_seen_def after_seen_def)
    next
      case F3: False
      note e3 = earlier [OF F3]
      define p4 where "p4 = [ReadStop False, StatusUpdate row msg_processing,
                             ProgressUpdate row 50 100, ReadStop False, ReadFile fp]"
      show ?thesis
      proof (cases "file_read tenv")
        case (Inl e)
        have "pipeline_body env cfg tenv w tok i row fp tr = (Inl e, tr @ p4)"
          by (simp add: pipeline_body_def is_set_look e3 Let_def log_def Inl p4_def)
        then show ?thesis
          by (rule fin) (simp_all add: p4_def)
      next
        case (Inr file_bytes)
        show ?thesis
        proof (cases "tok_set_at tok (length tr + 5)")
          case True
          note l = later [OF True]
          have "pipeline_body env cfg tenv w tok i row fp tr
                  = (Inr (stopped_return i row), tr @ (p4 @ [ReadStop True]))"
            by (simp add: pipeline_body_def is_set_look e3 l Let_def log_def Inr p4_def)
          moreover have "quiet_after_seen (p4 @ [ReadStop True])"
            by (rule quiet_append_look) (simp add: p4_def)
          ultimately show ?thesis
            by (rule fin) simp
        next
          case F5: False
          note e5 = earlier [OF F5]
          from pipeline_tail_seen [where env = env and cfg = cfg and net = "task_net tenv"
              and fb = file_bytes and ft = "file_type_of env fp" and mo = "model_override w"
              and tok = tok and tr = "tr @ p4 @ [ReadStop False]" and i = i and row = row
              and xenv = "task_xenv tenv" and w = w and fp = fp]
          obtain out bn where t:
            "(case ocr_file env cfg (task_net tenv) file_bytes (file_type_of env fp)
                     (model_override w) (Some tok) (tr @ p4 @ [ReadStop False]) of
                (Inl e, tr6) \<Rightarrow> (Inl e, tr6)
              | (Inr res, tr6) \<Rightarrow>
                  (let (b5, tr7) = is_set tok tr6
                   in if b5 then (Inr (stopped_return i row), tr7)
                      else deliver env (task_xenv tenv) w tok i row fp res tr7))
               = (Inr out, (tr @ p4 @ [ReadStop False]) @ bn)"
            "quiet_after_seen bn"
            "(out = stopped_return i row \<and> ReadStop True \<in> set bn)
              \<or> ((\<exists>s r. out = (i, row, Some s, r) \<and> s \<in> set terminal_statuses)
                 \<and> ReadStop True \<notin> set bn)" by blast
          have "pipeline_body env cfg tenv w tok i row fp tr
                  = (case ocr_file env cfg (task_net tenv) file_bytes (file_type_of env fp)
                     (model_override w) (Some tok) (tr @ p4 @ [ReadStop False]) of
                (Inl e, tr6) \<Rightarrow> (Inl e, tr6)
              | (Inr res, tr6) \<Rightarrow>
                  (let (b5, tr7) = is_set tok tr6
                   in if b5 then (Inr (stopped_return i row), tr7)
                      else deliver env (task_xenv tenv) w tok i row fp res tr7))"
            by (simp add: pipeline_body_def is_set_look e5 Let_def log_def Inr p4_def)
          with t(1) have pb: "pipeline_body env cfg tenv w tok i row fp tr
                  = (Inr out, tr @ ((p4 @ [ReadStop False]) @ bn))" by simp
          have un: "ReadStop True \<notin> set (p4 @ [ReadStop False])" by (simp add: p4_def)
          have q: "quiet_after_seen ((p4 @ [ReadStop False]) @ bn)"
            by (rule quiet_append_unseen [OF un t(2)])
          from pb q show ?thesis
            by (rule fin) (use t(3) un in auto)
        qed
      qed
    qed
  qed
qed


lemma demo_stop_after_second_look:
  "process_single_file demo_env demo_config tenv_ok (demo_worker (asc ''txt'')) (Some 2) 0
       (asc ''in/a.png'') []
     = (Inr (stopped_return 0 0),
        [ReadStop False, ReadStop False, StatusUpdate 0 msg_processing, ProgressUpdate 0 50 100,
         ReadStop True])"
  by (simp add: process_single_file_def pipeline_body_def demo_row_0 is_set_def tok_set_at_def
        log_def)

lemma demo_stop_after_handler_look:
  "process_single_file demo_env demo_config tenv_unreadable (demo_worker (asc ''txt''))
         (Some 7) 0 (asc ''in/a.png'') []
     = (Inr (0, 0, Some st_error, str_exn demo_env (OSError (asc ''No such file''))),
        [ReadStop False, ReadStop False, StatusUpdate 0 msg_processing, ProgressUpdate 0 50 100,
         ReadStop False, ReadFile (asc ''in/a.png''), ReadStop False,
         StatusUpdate 0 st_error, ProgressUpdate 0 100 100,
         ResultUpdate 0 (take 100 (str_exn demo_env (OSError (asc ''No such file''))))])"
  by (simp add: process_single_file_def pipeline_body_def demo_row_0 is_set_def tok_set_at_def
        log_def tenv_unreadable_def emit_terminal_def)

text \<open>
  Claim C1, as far as the code keeps it.  Whatever the pipeline of an item meets and
  whenever the stop event is set: the pipeline returns (it never raises); from its first
  look at the stop event that sees the event set, it does nothing but look again, so it
  emits no status, progress or result signal after such a look, at whichever of its check
  points the look is (before starting, before reading the file, before the call of the
  client, inside the client, after the call, after the export, in the handler); and it
  returns the stop marker exactly when some look saw the event set, a terminal status
  otherwise.  The claim itself speaks of the time at which the event is set, not of
  the look that sees it: for that time it fails.
\<close>

theorem pipeline_silent_once_seen:
  "\<exists>out new. process_single_file env cfg tenv w tok i fp tr = (Inr out, tr @ new)
      \<and> quiet_after_seen new
      \<and> (ReadStop True \<in> set new \<longrightarrow> out = stopped_return i (slot_of w i))
      \<and> (ReadStop True \<notin> set new \<longrightarrow>
           (\<exists>s r. out = (i, slot_of w i, Some s, r) \<and> s \<in> set terminal_statuses))"
proof -
  define row where "row = slot_of w i"
  have fin: "\<exists>out new. X = (Inr out, tr @ new)
      \<and> quiet_after_seen new
      \<and> (ReadStop True \<in> set new \<longrightarrow> out = stopped_return i row)
      \<and> (ReadStop True \<notin> set new \<longrightarrow>
           (\<exists>s r. out = (i, row, Some s, r) \<and> s \<in> set terminal_statuses))"
    if "X = (Inr o1, tr @ n1)" "quiet_after_seen n1"
      "o1 = stopped_return i row \<and> ReadStop True \<in> set n1
        \<or> (\<exists>s r. o1 = (i, row, Some s, r) \<and> s \<in> set terminal_statuses)
            \<and> ReadStop True \<notin> set n1" for X o1 n1
    using that by blast
  have "\<exists>out new. process_single_file env cfg tenv w tok i fp tr = (Inr out, tr @ new)
      \<and> quiet_after_seen new
      \<and> (ReadStop True \<in> set new \<longrightarrow> out = stopped_return i row)
      \<and> (ReadStop True \<notin> set new \<longrightarrow>
           (\<exists>s r. out = (i, row, Some s, r) \<and> s \<in> set terminal_statuses))"
  proof (cases "tok_set_at tok (length tr)")
    case True
    have "process_single_file env cfg tenv w tok i fp tr
            = (Inr (stopped_return i row), tr @ [ReadStop True])"
      by (simp add: process_single_file_def row_index_slot row_def is_set_look True)
    then show ?thesis
      by (rule fin) (simp_all add: quiet_after_seen_def after_seen_def)
  next
    case False
    from pipeline_body_seen [where env = env and cfg = cfg and tenv = tenv and w = w
        and tok = tok and i = i and row = row and fp = fp and tr = "tr @ [ReadStop False]"]
    obtain out bn where pb:
      "pipeline_body env cfg tenv w tok i row fp (tr @ [ReadStop False])
         = (out, (tr @ [ReadStop False]) @ bn)"
      "quiet_after_seen bn"
      "(\<exists>e. out = Inl e) \<and> ReadStop True \<notin> set bn
        \<or> out = Inr (stopped_return i row) \<and> ReadStop True \<in> set bn
        \<or> (\<exists>s r. out = Inr (i, row, Some s, r) \<and> s \<in> set terminal_statuses)
            \<and> ReadStop True \<notin> set bn" by blast
    have psf: "process_single_file env cfg tenv w tok i fp tr
      = (case out of
           Inr r \<Rightarrow> (Inr r, tr @ [ReadStop False] @ bn)
         | Inl e \<Rightarrow>
             (let (b, tr3) = is_set tok (tr @ [ReadStop False] @ bn)
              in if b then (Inr (stopped_return i row), tr3)
                 else (Inr (i, row, Some st_error, str_exn env e),
                       emit_terminal row st_error (take 100 (str_exn env e)) tr3)))"
      using False pb(1)
      by (simp add: process_single_file_def row_index_slot row_def [symmetric] is_set_look
            split: sum.splits)
    show ?thesis
    proof (cases out)
      case (Inr r)
      with pb(3) have c: "r = stopped_return i row \<and> ReadStop True \<in> set bn
        \<or> (\<exists>s r'. r = (i, row, Some s, r') \<and> s \<in> set terminal_statuses)
            \<and> ReadStop True \<notin> set bn" by auto
      have q: "quiet_after_seen ([ReadStop False] @ bn)"
        by (rule quiet_append_unseen) (simp_all add: pb(2))
      from psf Inr have "process_single_file env cfg tenv w tok i fp tr
          = (Inr r, tr @ ([ReadStop False] @ bn))" by simp
      then show ?thesis
        by (rule fin [OF _ q]) (use c in auto)
    next
      case (Inl e)
      with pb(3) have un: "ReadStop True \<notin> set bn" by auto
      show ?thesis
      proof (cases "tok_set_at tok (length (tr @ [ReadStop False] @ bn))")
        case True
        have q: "quiet_after_seen (([ReadStop False] @ bn) @ [ReadStop True])"
          by (rule quiet_append_look) (use un in simp)
        from psf Inl True have "process_single_file env cfg tenv w tok i fp tr
            = (Inr (stopped_return i row), tr @ (([ReadStop False] @ bn) @ [ReadStop True]))"
          by (simp add: is_set_look)
        then show ?thesis
          by (rule fin [OF _ q]) simp
      next
        case F: False
        define tail where "tail = [ReadStop False, StatusUpdate row st_error,
            ProgressUpdate row 100 100, ResultUpdate row (take 100 (str_exn env e))]"
        have u: "ReadStop True \<notin> set (([ReadStop False] @ bn) @ tail)"
          using un by (simp add: tail_def)
        from psf Inl F have "process_single_file env cfg tenv w tok i fp tr
            = (Inr (i, row, Some st_error, str_exn env e), tr @ (([ReadStop False] @ bn) @ tail))"
          by (simp add: is_set_look emit_terminal_trace tail_def)
        then show ?thesis
          by (rule fin [OF _ quiet_unseen [OF u]]) (use u in simp)
      qed
    qed
  qed
  then show ?thesis unfolding row_def .
qed

theorem pipeline_silent_once_seen_witness:
  "fst (process_single_file demo_env demo_config tenv_ok (demo_worker (asc ''txt'')) (Some 2) 0
          (asc ''in/a.png'') []) = Inr (stopped_return 0 0)
   \<and> quiet_after_seen
        [ReadStop False, ReadStop False, StatusUpdate 0 msg_processing, ProgressUpdate 0 50 100,
         ReadStop True]"
  using pipeline_silent_once_seen [of demo_env demo_config tenv_ok "demo_worker (asc ''txt'')"
      "Some 2" 0 "asc ''in/a.png''" "[]"]
  by (auto simp: demo_stop_after_second_look)

text \<open>
  Claim C1 as stated fails.  Two schedules in which a pipeline emits signals although
  the stop event is set.  In
  the first the event is set right after the second look (the one that guards the
  "processing" update): both signals of that update are emitted with the event set, and
  only the third look sees it.  In the second the file cannot be read and the event is
  set right after the look in the handler: the terminal update "error" is emitted with
  the event set, and the status returned is "error", not the stop marker.
\<close>

theorem pipeline_emits_after_stop:
  "process_single_file demo_env demo_config tenv_ok (demo_worker (asc ''txt'')) (Some 2) 0
       (asc ''in/a.png'') []
     = (Inr (stopped_return 0 0),
        [ReadStop False, ReadStop False, StatusUpdate 0 msg_processing, ProgressUpdate 0 50 100,
         ReadStop True])
   \<and> emitted_after_stop (Some 2)
        (snd (process_single_file demo_env demo_config tenv_ok (demo_worker (asc ''txt''))
                (Some 2) 0 (asc ''in/a.png'') []))
       = [StatusUpdate 0 msg_processing, ProgressUpdate 0 50 100]
   \<and> process_single_file demo_env demo_config tenv_unreadable (demo_worker (asc ''txt''))
         (Some 7) 0 (asc ''in/a.png'') []
     = (Inr (0, 0, Some st_error, str_exn demo_env (OSError (asc ''No such file''))),
        [ReadStop False, ReadStop False, StatusUpdate 0 msg_processing, ProgressUpdate 0 50 100,
         ReadStop False, ReadFile (asc ''in/a.png''), ReadStop False,
         StatusUpdate 0 st_error, ProgressUpdate 0 100 100,
         ResultUpdate 0 (take 100 (str_exn demo_env (OSError (asc ''No such file''))))])
   \<and> emitted_after_stop (Some 7)
        (snd (process_single_file demo_env demo_config tenv_unreadable
                (demo_worker (asc ''txt'')) (Some 7) 0 (asc ''in/a.png'') []))
       = [StatusUpdate 0 st_error, ProgressUpdate 0 100 100,
          ResultUpdate 0 (take 100 (str_exn demo_env (OSError (asc ''No such file''))))]"
proof -
  note a = demo_stop_after_second_look
  note b = demo_stop_after_handler_look
  have c: "emitted_after_stop (Some 2)
        [ReadStop False, ReadStop False, StatusUpdate 0 msg_processing, ProgressUpdate 0 50 100,
         ReadStop True]
       = [StatusUpdate 0 msg_processing, ProgressUpdate 0 50 100]"
    by (simp add: emitted_after_stop_def tok_set_at_def upt_rec)
  have d: "emitted_after_stop (Some 7)
        [ReadStop False, ReadStop False, StatusUpdate 0 msg_processing, ProgressUpdate 0 50 100,
         ReadStop False, ReadFile (asc ''in/a.png''), ReadStop False,
         StatusUpdate 0 st_error, ProgressUpdate 0 100 100, ResultUpdate 0 m]
       = [StatusUpdate 0 st_error, ProgressUpdate 0 100 100, ResultUpdate 0 m]" for m
    by (simp add: emitted_after_stop_def tok_set_at_def upt_rec)
  show ?thesis
    unfolding a b snd_conv c d by simp
qed

end
